theory Spec2Isabelle
  imports Complex_Main
begin

section \<open>Errors and results\<close>

text \<open>
  The Python exceptions the k-means module can raise, by class. A computation that may
  raise returns \<open>py_error + 'a\<close>, with \<open>Inl\<close> the exception.
\<close>

datatype py_error = AssertionError | IndexError | RuntimeError | UnboundLocalError

fun bind :: "py_error + 'a \<Rightarrow> ('a \<Rightarrow> py_error + 'b) \<Rightarrow> py_error + 'b" where
  "bind (Inl e) f = Inl e"
| "bind (Inr x) f = f x"

section \<open>Dense tensors\<close>

text \<open>
  A tensor is its shape and its elements in row-major order, as a contiguous torch
  tensor is. The element type is \<open>real\<close> for float tensors (floating point is idealised
  as exact real arithmetic) and \<open>nat\<close> for index (long) tensors.
\<close>

datatype 'a tensor = Tensor (shape: "nat list") (data: "'a list")

text \<open>All multi-indices of a shape, in row-major order, and the offset of one of them.\<close>

fun indices :: "nat list \<Rightarrow> nat list list" where
  "indices [] = [[]]"
| "indices (n # ns) = concat (map (\<lambda>i. map ((#) i) (indices ns)) [0..<n])"

fun offset :: "nat list \<Rightarrow> nat list \<Rightarrow> nat" where
  "offset (n # ns) (i # js) = i * prod_list ns + offset ns js"
| "offset _ _ = 0"

definition get :: "'a tensor \<Rightarrow> nat list \<Rightarrow> 'a" where
  "get t idx = data t ! offset (shape t) idx"

definition build :: "nat list \<Rightarrow> (nat list \<Rightarrow> 'a) \<Rightarrow> 'a tensor" where
  "build sh f = Tensor sh (map f (indices sh))"

definition tmap :: "('a \<Rightarrow> 'b) \<Rightarrow> 'a tensor \<Rightarrow> 'b tensor" where
  "tmap f t = Tensor (shape t) (map f (data t))"

subsection \<open>Shape operations\<close>

text \<open>\<open>t.transpose(1, 0)\<close>: swaps the first two dimensions of a tensor of rank 2.\<close>

definition transpose_1_0 :: "'a tensor \<Rightarrow> py_error + 'a tensor" where
  "transpose_1_0 t =
     (case shape t of
        [a, b] \<Rightarrow> Inr (build [b, a] (\<lambda>idx. get t [idx ! 1, idx ! 0]))
      | _ \<Rightarrow> Inl IndexError)"

text \<open>\<open>t.unsqueeze(dim)\<close>: a new dimension of size 1 at \<open>dim\<close>; a negative \<open>dim\<close> counts
  from the end.\<close>

definition unsqueeze :: "int \<Rightarrow> 'a tensor \<Rightarrow> py_error + 'a tensor" where
  "unsqueeze ax t =
     (let r = int (length (shape t)); p = (if ax < 0 then ax + r + 1 else ax)
      in if p < 0 \<or> r < p then Inl IndexError
         else Inr (Tensor (take (nat p) (shape t) @ [1] @ drop (nat p) (shape t)) (data t)))"

text \<open>\<open>t.squeeze()\<close> drops every dimension of size 1; \<open>t.squeeze(-1)\<close> drops the last
  dimension when it has size 1.\<close>

definition squeeze :: "'a tensor \<Rightarrow> 'a tensor" where
  "squeeze t = Tensor (filter (\<lambda>n. n \<noteq> 1) (shape t)) (data t)"

definition squeeze_last :: "'a tensor \<Rightarrow> 'a tensor" where
  "squeeze_last t =
     (case rev (shape t) of
        [] \<Rightarrow> t
      | n # ns \<Rightarrow> if n = 1 then Tensor (rev ns) (data t) else t)"

text \<open>\<open>t.view(-1)\<close>: the elements as one dimension.\<close>

definition view_flat :: "'a tensor \<Rightarrow> 'a tensor" where
  "view_flat t = Tensor [prod_list (shape t)] (data t)"

text \<open>\<open>torch.zeros(n1, n2, ...)\<close>: a negative size raises.\<close>

definition zeros :: "int list \<Rightarrow> py_error + real tensor" where
  "zeros dims =
     (if list_ex (\<lambda>n. n < 0) dims then Inl RuntimeError
      else Inr (Tensor (map nat dims) (replicate (prod_list (map nat dims)) 0)))"

subsection \<open>Broadcasting\<close>

text \<open>
  Two shapes are aligned at their last dimension; two sizes are compatible when they are
  equal or one of them is 1. An operand is read at the result's index with the index of
  each of its size-1 dimensions set to 0.
\<close>

fun broadcast_rev :: "nat list \<Rightarrow> nat list \<Rightarrow> nat list option" where
  "broadcast_rev [] ys = Some ys"
| "broadcast_rev (x # xs) [] = Some (x # xs)"
| "broadcast_rev (x # xs) (y # ys) =
     (if x = y \<or> y = 1 then map_option ((#) x) (broadcast_rev xs ys)
      else if x = 1 then map_option ((#) y) (broadcast_rev xs ys)
      else None)"

definition broadcast_shapes :: "nat list \<Rightarrow> nat list \<Rightarrow> nat list option" where
  "broadcast_shapes s1 s2 = map_option rev (broadcast_rev (rev s1) (rev s2))"

definition bidx :: "nat list \<Rightarrow> nat list \<Rightarrow> nat list" where
  "bidx sh idx =
     map2 (\<lambda>n i. if n = 1 then 0 else i) sh (drop (length idx - length sh) idx)"

definition binop :: "('a \<Rightarrow> 'b \<Rightarrow> 'c) \<Rightarrow> 'a tensor \<Rightarrow> 'b tensor \<Rightarrow> py_error + 'c tensor" where
  "binop f a b =
     (case broadcast_shapes (shape a) (shape b) of
        None \<Rightarrow> Inl RuntimeError
      | Some sh \<Rightarrow>
          Inr (build sh (\<lambda>idx. f (get a (bidx (shape a) idx)) (get b (bidx (shape b) idx)))))"

subsection \<open>Reductions\<close>

text \<open>The index of the first minimal element, by a left-to-right scan.\<close>

fun argmin_from :: "nat \<Rightarrow> real \<Rightarrow> nat \<Rightarrow> real list \<Rightarrow> nat" where
  "argmin_from best bv i [] = best"
| "argmin_from best bv i (x # xs) =
     (if x < bv then argmin_from i x (Suc i) xs else argmin_from best bv (Suc i) xs)"

definition argmin_list :: "real list \<Rightarrow> nat" where
  "argmin_list xs = (case xs of [] \<Rightarrow> 0 | x # ys \<Rightarrow> argmin_from 0 x 1 ys)"

text \<open>\<open>torch.argmin(t, dim=dim)\<close> and \<open>t.sum(dim=dim)\<close> reduce one dimension away; a
  \<open>dim\<close> the tensor does not have raises, and so does an argmin over no elements.\<close>

definition argmin :: "nat \<Rightarrow> real tensor \<Rightarrow> py_error + nat tensor" where
  "argmin ax t =
     (let sh = shape t
      in if length sh \<le> ax then Inl IndexError
         else if sh ! ax = 0 then Inl IndexError
         else Inr (build (take ax sh @ drop (Suc ax) sh)
                (\<lambda>idx. argmin_list
                   (map (\<lambda>j. get t (take ax idx @ [j] @ drop ax idx)) [0..<sh ! ax]))))"

definition sum_dim :: "nat \<Rightarrow> real tensor \<Rightarrow> py_error + real tensor" where
  "sum_dim ax t =
     (let sh = shape t
      in if length sh \<le> ax then Inl IndexError
         else Inr (build (take ax sh @ drop (Suc ax) sh)
                (\<lambda>idx. sum_list
                   (map (\<lambda>j. get t (take ax idx @ [j] @ drop ax idx)) [0..<sh ! ax]))))"

text \<open>\<open>torch.sum(t)\<close> is a tensor of rank 0; \<open>item\<close> reads the number of a one-element
  tensor, as the comparison with \<open>tol\<close> in an \<open>if\<close> does.\<close>

definition sum_all :: "real tensor \<Rightarrow> real tensor" where
  "sum_all t = Tensor [] [sum_list (data t)]"

definition item :: "'a tensor \<Rightarrow> py_error + 'a" where
  "item t = (case data t of [x] \<Rightarrow> Inr x | _ \<Rightarrow> Inl RuntimeError)"

subsection \<open>Indexing\<close>

text \<open>\<open>torch.nonzero(t)\<close>: one row per non-zero element, holding its multi-index, in
  row-major order.\<close>

definition nonzero :: "real tensor \<Rightarrow> nat tensor" where
  "nonzero t =
     (let hits = filter (\<lambda>idx. get t idx \<noteq> 0) (indices (shape t))
      in Tensor [length hits, length (shape t)] (concat hits))"

text \<open>\<open>t[ix]\<close> for an index tensor \<open>ix\<close>: the rows of \<open>t\<close> (along its first dimension) that
  \<open>ix\<close> names, in the shape of \<open>ix\<close>.\<close>

definition index :: "'a tensor \<Rightarrow> nat tensor \<Rightarrow> py_error + 'a tensor" where
  "index t ix =
     (case shape t of
        [] \<Rightarrow> Inl IndexError
      | n # rest \<Rightarrow>
          if list_ex (\<lambda>i. n \<le> i) (data ix) then Inl IndexError
          else Inr (build (shape ix @ rest)
                 (\<lambda>idx. get t (get ix (take (length (shape ix)) idx)
                                # drop (length (shape ix)) idx))))"

text \<open>\<open>t[ix] = v\<close>: \<open>v\<close> is broadcast to the shape of \<open>t[ix]\<close> and written row by row.\<close>

definition index_put :: "'a tensor \<Rightarrow> nat tensor \<Rightarrow> 'a tensor \<Rightarrow> py_error + 'a tensor" where
  "index_put t ix v =
     (case shape t of
        [] \<Rightarrow> Inl IndexError
      | n # rest \<Rightarrow>
          if list_ex (\<lambda>i. n \<le> i) (data ix) then Inl IndexError
          else if broadcast_shapes (shape v) (shape ix @ rest) = Some (shape ix @ rest)
          then Inr (build (shape t)
                 (\<lambda>idx. case filter (\<lambda>p. get ix p = hd idx) (indices (shape ix)) of
                     [] \<Rightarrow> get t idx
                   | p # ps \<Rightarrow> get v (bidx (shape v) (last (p # ps) @ tl idx))))
          else Inl RuntimeError)"

text \<open>The bounds of the Python slice \<open>[a:b]\<close> on a sequence of length \<open>n\<close>.\<close>

definition slice_bounds :: "nat \<Rightarrow> int \<Rightarrow> int \<Rightarrow> nat \<times> nat" where
  "slice_bounds n a b =
     (let lo = nat (if a < 0 then max 0 (a + int n) else min a (int n));
          hi = nat (if b < 0 then max 0 (b + int n) else min b (int n))
      in (lo, max lo hi))"

definition slice0 :: "int \<Rightarrow> int \<Rightarrow> 'a tensor \<Rightarrow> py_error + 'a tensor" where
  "slice0 a b t =
     (case shape t of
        [] \<Rightarrow> Inl IndexError
      | n # rest \<Rightarrow>
          (case slice_bounds n a b of
             (lo, hi) \<Rightarrow>
               Inr (Tensor ((hi - lo) # rest)
                      (take ((hi - lo) * prod_list rest) (drop (lo * prod_list rest) (data t))))))"

text \<open>\<open>t[a:b] = v\<close>: \<open>v\<close> is broadcast to the shape of the slice and written in place.\<close>

definition slice0_put :: "int \<Rightarrow> int \<Rightarrow> 'a tensor \<Rightarrow> 'a tensor \<Rightarrow> py_error + 'a tensor" where
  "slice0_put a b t v =
     (case shape t of
        [] \<Rightarrow> Inl IndexError
      | n # rest \<Rightarrow>
          (case slice_bounds n a b of
             (lo, hi) \<Rightarrow>
               if broadcast_shapes (shape v) ((hi - lo) # rest) = Some ((hi - lo) # rest)
               then Inr (build (shape t)
                      (\<lambda>idx. if lo \<le> hd idx \<and> hd idx < hi
                             then get v (bidx (shape v) ((hd idx - lo) # tl idx))
                             else get t idx))
               else Inl RuntimeError))"

text \<open>\<open>torch.cat([a, b])\<close> along the first dimension: the other dimensions must agree; a
  tensor of shape \<open>(0,)\<close> is skipped, a tensor of rank 0 cannot be concatenated.\<close>

definition cat :: "'a tensor \<Rightarrow> 'a tensor \<Rightarrow> py_error + 'a tensor" where
  "cat a b =
     (if shape a = [0] then (if shape b = [] then Inl RuntimeError else Inr b)
      else if shape b = [0] then (if shape a = [] then Inl RuntimeError else Inr a)
      else (case (shape a, shape b) of
              (n # ra, m # rb) \<Rightarrow>
                if ra = rb then Inr (Tensor ((n + m) # ra) (data a @ data b))
                else Inl RuntimeError
            | _ \<Rightarrow> Inl RuntimeError))"

text \<open>\<open>self.scatter_(dim, ix, v)\<close>: writes \<open>v\<close> at every position of \<open>self\<close> obtained from
  a position of \<open>ix\<close> by replacing its \<open>dim\<close>-th index with the element of \<open>ix\<close> there.
  An empty \<open>ix\<close> changes nothing; otherwise \<open>ix\<close> must have the rank of \<open>self\<close>, be no
  larger than \<open>self\<close> in the other dimensions, and hold indices within \<open>self\<close>.\<close>

definition scatter :: "real tensor \<Rightarrow> nat \<Rightarrow> nat tensor \<Rightarrow> real \<Rightarrow> py_error + real tensor" where
  "scatter self ax ix v =
     (if prod_list (shape ix) = 0 then Inr self
      else if length (shape self) \<le> ax then Inl IndexError
      else if length (shape ix) = length (shape self) then
        (if list_ex (\<lambda>k. k \<noteq> ax \<and> shape self ! k < shape ix ! k) [0..<length (shape self)]
         then Inl RuntimeError
         else if list_ex (\<lambda>j. shape self ! ax \<le> j) (data ix) then Inl RuntimeError
         else Inr (build (shape self)
                (\<lambda>idx. if list_ex (\<lambda>p. p[ax := get ix p] = idx) (indices (shape ix))
                       then v else get self idx)))
      else Inl RuntimeError)"

section \<open>The k-means module\<close>

text \<open>
  The functions of \<open>utee/kmeans.py\<close>, line by line. Two things they do are left out,
  since no result depends on them: the placement of tensors on a device (\<open>iscuda\<close>,
  \<open>.cuda()\<close>, \<open>torch.cuda.empty_cache()\<close>) and the printing under \<open>verbose\<close>. The unused
  tensor \<open>ones\<close> is left out as well. \<open>K\<close> and \<open>max_iter\<close> are natural numbers; where the
  code computes \<open>K - 1\<close> the model computes it as an integer.
\<close>

subsection \<open>Assignment\<close>

text \<open>\<open>choose_centers(X, centers)\<close>: the two assertions, then the broadcast difference,
  its square, \<open>squeeze()\<close> and \<open>argmin(dim=1)\<close>.\<close>

definition choose_centers :: "real tensor \<Rightarrow> real tensor \<Rightarrow> py_error + nat tensor" where
  "choose_centers X centers =
     (if length (shape X) = 2 \<and> length (shape centers) = 2 then
        (if shape X ! 1 = shape centers ! 1 then
           bind (transpose_1_0 centers) (\<lambda>ct.
           bind (unsqueeze 0 ct) (\<lambda>centers'.
           bind (unsqueeze (- 1) X) (\<lambda>X'.
           bind (binop (-) X' centers') (\<lambda>diff.
           argmin 1 (squeeze (tmap (\<lambda>x. x ^ 2) diff))))))
         else Inl AssertionError)
      else Inl AssertionError)"

subsection \<open>Initialisation\<close>

text \<open>
  \<open>torch.randperm(n)\<close> draws a random permutation of \<open>0, ..., n - 1\<close>. The draw is an
  argument \<open>perm\<close> of every function that samples; \<open>is_perm n perm\<close> says that it is a
  permutation of that range.
\<close>

definition randperm :: "nat \<Rightarrow> nat list \<Rightarrow> nat tensor" where
  "randperm n perm = Tensor [n] perm"

definition is_perm :: "nat \<Rightarrow> nat list \<Rightarrow> bool" where
  "is_perm n perm = (sort perm = [0..<n])"

text \<open>\<open>forgy_initialization(X, K)\<close>: the rows of \<open>X\<close> at the first \<open>K\<close> entries of the
  permutation.\<close>

definition forgy_initialization :: "real tensor \<Rightarrow> nat \<Rightarrow> nat list \<Rightarrow> py_error + real tensor" where
  "forgy_initialization X K perm =
     (case shape X of
        [] \<Rightarrow> Inl IndexError
      | N # _ \<Rightarrow>
          bind (slice0 0 (int K) (randperm N perm)) (\<lambda>indices.
          index X indices))"

text \<open>\<open>forgy_initialization_nnz(X, Xp, K)\<close>: \<open>K - 1\<close> rows of \<open>X\<close> drawn among the positions
  where \<open>Xp\<close> is not zero, then one zero row. \<open>len(nnz_dix)\<close> is the first size of
  \<open>nnz_dix\<close>, a tensor of rank 2.\<close>

definition forgy_initialization_nnz ::
  "real tensor \<Rightarrow> real tensor \<Rightarrow> nat \<Rightarrow> nat list \<Rightarrow> py_error + real tensor" where
  "forgy_initialization_nnz X Xp K perm =
     (let nnz_dix = nonzero (view_flat Xp)
      in bind (slice0 0 (int K - 1) (randperm (hd (shape nnz_dix)) perm)) (\<lambda>indices.
         bind (zeros [1, 1]) (\<lambda>zero_el.
         bind (index nnz_dix indices) (\<lambda>sel.
         bind (index X (squeeze sel)) (\<lambda>rows.
         cat rows zero_el)))))"

text \<open>\<open>forgy_initialization_fixed_nnz(X, Xp, K)\<close>: the same draw, with no zero row.\<close>

definition forgy_initialization_fixed_nnz ::
  "real tensor \<Rightarrow> real tensor \<Rightarrow> nat \<Rightarrow> nat list \<Rightarrow> py_error + real tensor" where
  "forgy_initialization_fixed_nnz X Xp K perm =
     (let nnz_dix = nonzero (view_flat Xp)
      in bind (slice0 0 (int K - 1) (randperm (hd (shape nnz_dix)) perm)) (\<lambda>indices.
         bind (index nnz_dix indices) (\<lambda>sel.
         index X (squeeze sel))))"

subsection \<open>The iteration\<close>

text \<open>
  The variables of the loop. \<open>choice_cluster\<close> and \<open>centers_old\<close> are bound by the first
  iteration only: \<open>None\<close> is the unbound variable.
\<close>

record kstate =
  choice_cluster :: "nat tensor option"
  centers :: "real tensor"
  centers_old :: "real tensor option"
  one_hot :: "real tensor"

text \<open>\<open>torch.sum(torch.sqrt(torch.sum((centers - centers_old) ** 2, dim=1)))\<close>\<close>

definition center_shift :: "real tensor \<Rightarrow> real tensor \<Rightarrow> py_error + real" where
  "center_shift c cold =
     bind (binop (-) c cold) (\<lambda>diff.
     bind (sum_dim 1 (tmap (\<lambda>x. x ^ 2) diff)) (\<lambda>sq.
     item (sum_all (tmap sqrt sq))))"

text \<open>
  The body of the loop is shared by the four variants, up to the data matrix they cluster
  and the way they store the new centers. \<open>m_step\<close> is its first part (the lines under
  \<open># M step\<close>): the assignment, the one-hot matrix, the sums and counts per cluster, the
  reciprocal of the non-zero counts and the new centers. It returns \<open>choice_cluster\<close>,
  \<open>one_hot\<close> and \<open>(Xp * Xsum).unsqueeze(1)\<close>.
\<close>

definition m_step ::
  "real tensor \<Rightarrow> kstate \<Rightarrow> py_error + nat tensor \<times> real tensor \<times> real tensor" where
  "m_step X s =
     bind (choose_centers X (centers s)) (\<lambda>cc.
     bind (unsqueeze 1 cc) (\<lambda>ix.
     bind (scatter (tmap (\<lambda>x. 0) (one_hot s)) 1 ix 1) (\<lambda>oh.
     bind (binop (*) X oh) (\<lambda>Xoh.
     bind (sum_dim 0 Xoh) (\<lambda>Xp.
     bind (sum_dim 0 oh) (\<lambda>Xsum.
     bind (index Xsum (nonzero Xsum)) (\<lambda>sel.
     bind (index_put Xsum (nonzero Xsum) (tmap (\<lambda>x. 1 / x) sel)) (\<lambda>Xsum'.
     bind (binop (*) Xp Xsum') (\<lambda>m.
     bind (unsqueeze 1 m) (\<lambda>new.
     Inr (cc, oh, new)))))))))))"

text \<open>
  The whole body: the M step, the store of the new centers (\<open>store old new\<close>) and the
  shift. It returns the variables after the body and \<open>center_shift\<close>.
\<close>

definition lloyd_step ::
  "real tensor \<Rightarrow> (real tensor \<Rightarrow> real tensor \<Rightarrow> py_error + real tensor) \<Rightarrow> kstate
     \<Rightarrow> py_error + kstate \<times> real" where
  "lloyd_step X store s =
     bind (m_step X s) (\<lambda>(cc, oh, new).
     bind (store (centers s) new) (\<lambda>c'.
     bind (center_shift c' (centers s)) (\<lambda>shift.
     Inr (\<lparr>choice_cluster = Some cc, centers = c', centers_old = Some (centers s),
            one_hot = oh\<rparr>, shift))))"

text \<open>\<open>for i in range(max_iter): ...; if center_shift ** 2 < tol: break\<close>\<close>

fun lloyd_loop ::
  "(kstate \<Rightarrow> py_error + kstate \<times> real) \<Rightarrow> real \<Rightarrow> nat \<Rightarrow> kstate \<Rightarrow> py_error + kstate" where
  "lloyd_loop step tol 0 s = Inr s"
| "lloyd_loop step tol (Suc n) s =
     (case step s of
        Inl e \<Rightarrow> Inl e
      | Inr (s', shift) \<Rightarrow> if shift ^ 2 < tol then Inr s' else lloyd_loop step tol n s')"

text \<open>\<open>return choice_cluster, centers\<close>: reading the unbound \<open>choice_cluster\<close> raises.\<close>

definition return_result :: "kstate \<Rightarrow> py_error + nat tensor \<times> real tensor" where
  "return_result s =
     (case choice_cluster s of
        None \<Rightarrow> Inl UnboundLocalError
      | Some cc \<Rightarrow> Inr (cc, centers s))"

definition init_state :: "real tensor \<Rightarrow> real tensor \<Rightarrow> kstate" where
  "init_state c0 oh = \<lparr>choice_cluster = None, centers = c0, centers_old = None, one_hot = oh\<rparr>"

text \<open>\<open>centers = ...\<close>: the new centers replace the old ones.\<close>

definition store_all :: "real tensor \<Rightarrow> real tensor \<Rightarrow> py_error + real tensor" where
  "store_all old new = Inr new"

text \<open>\<open>centers[:K] = ...[:K]\<close>: the first \<open>K\<close> rows are overwritten in place.\<close>

definition store_first :: "nat \<Rightarrow> real tensor \<Rightarrow> real tensor \<Rightarrow> py_error + real tensor" where
  "store_first K old new =
     bind (slice0 0 (int K) new) (\<lambda>v. slice0_put 0 (int K) old v)"

text \<open>\<open>lloyd(X, K, tol, max_iter)\<close>; \<open>lloyd_run\<close> is the function up to its \<open>return\<close>.\<close>

definition lloyd_run ::
  "real tensor \<Rightarrow> nat \<Rightarrow> real \<Rightarrow> nat \<Rightarrow> nat list \<Rightarrow> py_error + kstate" where
  "lloyd_run X K tol max_iter perm =
     bind (forgy_initialization X K perm) (\<lambda>c0.
     case shape X of
       [] \<Rightarrow> Inl IndexError
     | N # _ \<Rightarrow>
         bind (zeros [int N, int K]) (\<lambda>oh.
         lloyd_loop (lloyd_step X store_all) tol max_iter (init_state c0 oh)))"

definition lloyd ::
  "real tensor \<Rightarrow> nat \<Rightarrow> real \<Rightarrow> nat \<Rightarrow> nat list \<Rightarrow> py_error + nat tensor \<times> real tensor" where
  "lloyd X K tol max_iter perm = bind (lloyd_run X K tol max_iter perm) return_result"


text \<open>\<open>lloyd_nnz_fixed_0_center(X, Xp, K, tol, max_iter)\<close>: \<open>K + 1\<close> centers are asked
  for, and only the first \<open>K\<close> are stored by an iteration.\<close>

definition lloyd_nnz_fixed_0_center ::
  "real tensor \<Rightarrow> real tensor \<Rightarrow> nat \<Rightarrow> real \<Rightarrow> nat \<Rightarrow> nat list
     \<Rightarrow> py_error + nat tensor \<times> real tensor" where
  "lloyd_nnz_fixed_0_center X Xp K tol max_iter perm =
     bind (forgy_initialization_nnz X Xp (K + 1) perm) (\<lambda>c0.
     case shape X of
       [] \<Rightarrow> Inl IndexError
     | N # _ \<Rightarrow>
         bind (zeros [int N, int K + 1]) (\<lambda>oh.
         bind (lloyd_loop (lloyd_step X (store_first K)) tol max_iter (init_state c0 oh))
           return_result))"

text \<open>\<open>lloyd_fixed_nnz(X, Xp, K, tol, max_iter)\<close>: the rows of \<open>X\<close> where \<open>Xp\<close> is not
  zero are clustered, with \<open>K - 1\<close> centers; \<open>lloyd_fixed_nnz_run\<close> is the function up to
  its \<open>return\<close>.\<close>

definition lloyd_fixed_nnz_run ::
  "real tensor \<Rightarrow> real tensor \<Rightarrow> nat \<Rightarrow> real \<Rightarrow> nat \<Rightarrow> nat list \<Rightarrow> py_error + kstate" where
  "lloyd_fixed_nnz_run X Xp K tol max_iter perm =
     bind (forgy_initialization_fixed_nnz X Xp K perm) (\<lambda>c0.
     let nnz_idx = nonzero (squeeze Xp)
     in bind (zeros [int (hd (shape nnz_idx)), int K - 1]) (\<lambda>oh.
        bind (index X nnz_idx) (\<lambda>rows.
        lloyd_loop (lloyd_step (squeeze_last rows) store_all) tol max_iter
          (init_state c0 oh))))"

definition lloyd_fixed_nnz ::
  "real tensor \<Rightarrow> real tensor \<Rightarrow> nat \<Rightarrow> real \<Rightarrow> nat \<Rightarrow> nat list
     \<Rightarrow> py_error + nat tensor \<times> real tensor" where
  "lloyd_fixed_nnz X Xp K tol max_iter perm =
     bind (lloyd_fixed_nnz_run X Xp K tol max_iter perm) return_result"

subsection \<open>The loop body on column data\<close>

text \<open>
  Closed forms of what one iteration computes when the data is a column (\<open>d = 1\<close>), as
  functions of a point or a cluster; \<open>m_step_col\<close> below proves that the body of the
  loop computes them. \<open>col_assign X C i\<close> is the assignment of point \<open>i\<close>, \<open>col_count\<close>
  and \<open>col_sum\<close> are the column sums of the one-hot matrix and of its product with the
  data, and \<open>col_center\<close> is the product of the sum with the guarded reciprocal of the
  count.
\<close>

definition col_assign :: "real tensor \<Rightarrow> real tensor \<Rightarrow> nat \<Rightarrow> nat" where
  "col_assign X C i =
     argmin_list (map (\<lambda>k. (get X [i, 0] - get C [k, 0]) ^ 2) [0..<hd (shape C)])"

definition col_count :: "(nat \<Rightarrow> nat) \<Rightarrow> nat \<Rightarrow> nat \<Rightarrow> real" where
  "col_count a N k = sum_list (map (\<lambda>i. if a i = k then 1 else 0) [0..<N])"

definition col_sum :: "real tensor \<Rightarrow> (nat \<Rightarrow> nat) \<Rightarrow> nat \<Rightarrow> nat \<Rightarrow> real" where
  "col_sum X a N k = sum_list (map (\<lambda>i. get X [i, 0] * (if a i = k then 1 else 0)) [0..<N])"

definition col_center :: "real tensor \<Rightarrow> (nat \<Rightarrow> nat) \<Rightarrow> nat \<Rightarrow> nat \<Rightarrow> real" where
  "col_center X a N k =
     col_sum X a N k
       * (if col_count a N k \<noteq> 0 then 1 / col_count a N k else col_count a N k)"

text \<open>
  The shapes of the loop variables when \<open>N\<close> points of one feature are clustered around
  \<open>K\<close> centers: \<open>centers\<close> is \<open>K \<times> 1\<close> and \<open>one_hot\<close> is \<open>N \<times> K\<close>.
\<close>

definition col_state :: "nat \<Rightarrow> nat \<Rightarrow> kstate \<Rightarrow> bool" where
  "col_state N K s =
     (shape (centers s) = [K, 1] \<and> shape (one_hot s) = [N, K]
      \<and> length (data (one_hot s)) = N * K)"

subsection \<open>The notions of the specification\<close>

text \<open>
  The points that an assignment vector \<open>a\<close> gives to cluster \<open>k\<close>, the arithmetic mean of
  a list of points of a column, and the squared Euclidean distance between row \<open>i\<close> of
  \<open>X\<close> and row \<open>k\<close> of \<open>C\<close>.
\<close>

definition members :: "nat tensor \<Rightarrow> nat \<Rightarrow> nat \<Rightarrow> nat list" where
  "members a N k = filter (\<lambda>i. get a [i] = k) [0..<N]"

definition mean_of :: "real tensor \<Rightarrow> nat list \<Rightarrow> real" where
  "mean_of X ps = sum_list (map (\<lambda>i. get X [i, 0]) ps) / real (length ps)"



definition sqdist :: "real tensor \<Rightarrow> nat \<Rightarrow> real tensor \<Rightarrow> nat \<Rightarrow> real" where
  "sqdist X i C k = sum_list (map (\<lambda>j. (get X [i, j] - get C [k, j]) ^ 2) [0..<shape X ! 1])"

text \<open>The number of eligible rows, \<open>len(nnz_dix)\<close>, and their positions in order, the
  elements of \<open>nnz_dix\<close>.\<close>

definition nnz_count :: "real tensor \<Rightarrow> nat" where
  "nnz_count Xp = hd (shape (nonzero (view_flat Xp)))"

definition eligible :: "real tensor \<Rightarrow> nat list" where
  "eligible Xp = data (nonzero (view_flat Xp))"

section \<open>Facts about tensors\<close>

subsection \<open>Reading a built tensor\<close>

lemma length_concat_map_upt:
  "(\<And>i. i < n \<Longrightarrow> length (g i) = m) \<Longrightarrow> length (concat (map g [0..<n])) = n * m"
  by (induction n) simp_all

lemma block_index_less: "i < n \<Longrightarrow> j < m \<Longrightarrow> i * m + j < n * (m::nat)"
proof -
  assume a: "i < n" "j < m"
  then have "i * m + j < Suc i * m" by simp
  also have "\<dots> \<le> n * m" using a by (intro mult_le_mono1) simp
  finally show ?thesis .
qed

lemma nth_concat_map_upt:
  "(\<And>i. i < n \<Longrightarrow> length (g i) = m) \<Longrightarrow> i < n \<Longrightarrow> j < m
     \<Longrightarrow> concat (map g [0..<n]) ! (i * m + j) = g i ! j"
proof (induction n)
  case 0
  then show ?case by simp
next
  case (Suc n)
  have len: "length (concat (map g [0..<n])) = n * m"
    using Suc.prems(1) by (intro length_concat_map_upt) simp
  show ?case
  proof (cases "i < n")
    case True
    then have "i * m + j < n * m" using Suc.prems(3) by (rule block_index_less)
    then show ?thesis using Suc True len by (simp add: nth_append)
  next
    case False
    then have "i = n" using Suc.prems(2) by simp
    then show ?thesis using len by (simp add: nth_append)
  qed
qed

lemma length_indices [simp]: "length (indices sh) = prod_list sh"
proof (induction sh)
  case Nil
  then show ?case by simp
next
  case (Cons n ns)
  show ?case
    using length_concat_map_upt [of n "\<lambda>i. map ((#) i) (indices ns)" "prod_list ns"] Cons
    by simp
qed

lemma offset_less: "list_all2 (<) idx sh \<Longrightarrow> offset sh idx < prod_list sh"
proof (induction sh arbitrary: idx)
  case Nil
  then show ?case by simp
next
  case (Cons n ns)
  then obtain i js where idx: "idx = i # js" "i < n" "list_all2 (<) js ns"
    by (auto simp: list_all2_Cons2)
  then show ?case using Cons.IH [of js] by (simp add: block_index_less)
qed

lemma nth_indices: "list_all2 (<) idx sh \<Longrightarrow> indices sh ! offset sh idx = idx"
proof (induction sh arbitrary: idx)
  case Nil
  then show ?case by simp
next
  case (Cons n ns)
  then obtain i js where idx: "idx = i # js" "i < n" "list_all2 (<) js ns"
    by (auto simp: list_all2_Cons2)
  have "concat (map (\<lambda>i. map ((#) i) (indices ns)) [0..<n]) ! (i * prod_list ns + offset ns js)
          = map ((#) i) (indices ns) ! offset ns js"
    using idx offset_less [of js ns] by (intro nth_concat_map_upt) simp_all
  then show ?case using idx Cons.IH [of js] offset_less [of js ns] by simp
qed

lemma get_build: "list_all2 (<) idx sh \<Longrightarrow> get (build sh f) idx = f idx"
  by (simp add: get_def build_def nth_indices offset_less)

lemma indices_valid: "idx \<in> set (indices sh) \<Longrightarrow> list_all2 (<) idx sh"
  by (induction sh arbitrary: idx) auto

lemma build_cong:
  "(\<And>idx. list_all2 (<) idx sh \<Longrightarrow> f idx = g idx) \<Longrightarrow> build sh f = build sh g"
  by (simp add: build_def indices_valid)

lemma shape_build [simp]: "shape (build sh f) = sh"
  by (simp add: build_def)

lemma length_data_build [simp]: "length (data (build sh f)) = prod_list sh"
  by (simp add: build_def)

lemma get_reshape:
  "offset sh' idx' = offset (shape t) idx \<Longrightarrow> get (Tensor sh' (data t)) idx' = get t idx"
  by (simp add: get_def)

lemma tmap_build: "tmap g (build sh f) = build sh (\<lambda>idx. g (f idx))"
  by (simp add: tmap_def build_def)

lemma choose_centers_col:
  assumes X: "shape X = [N, 1]" and C: "shape C = [K, 1]" and N: "N \<noteq> 1" and K: "2 \<le> K"
  shows "choose_centers X C =
    Inr (build [N] (\<lambda>idx. argmin_list (map (\<lambda>k. (get X [hd idx, 0] - get C [k, 0]) ^ 2) [0..<K])))"
proof -
  define ct where "ct = build [1, K] (\<lambda>idx. get C [idx ! 1, idx ! 0])"
  define diff where "diff = build [N, 1, K]
      (\<lambda>idx. (get X [hd idx, 0] - get C [idx ! 2, 0]) ^ 2)"
  have t: "transpose_1_0 C = Inr ct"
    by (simp add: transpose_1_0_def C ct_def)
  have u1: "unsqueeze 0 ct = Inr (Tensor [1, 1, K] (data ct))"
    by (simp add: unsqueeze_def ct_def)
  have u2: "unsqueeze (- 1) X = Inr (Tensor [N, 1, 1] (data X))"
    by (simp add: unsqueeze_def X)
  have bs: "broadcast_shapes [N, 1, 1] [1, 1, K] = Some [N, 1, K]"
    using K by (simp add: broadcast_shapes_def)
  have b: "binop (-) (Tensor [N, 1, 1] (data X)) (Tensor [1, 1, K] (data ct)) =
      Inr (build [N, 1, K] (\<lambda>idx. get (Tensor [N, 1, 1] (data X)) (bidx [N, 1, 1] idx)
         - get (Tensor [1, 1, K] (data ct)) (bidx [1, 1, K] idx)))"
    using bs by (simp add: binop_def)
  have sq: "tmap (\<lambda>x. x ^ 2)
      (build [N, 1, K] (\<lambda>idx. get (Tensor [N, 1, 1] (data X)) (bidx [N, 1, 1] idx)
         - get (Tensor [1, 1, K] (data ct)) (bidx [1, 1, K] idx))) = diff"
    unfolding tmap_build diff_def
  proof (rule build_cong)
    fix idx assume "list_all2 (<) idx [N, 1, K]"
    then obtain i k where idx: "idx = [i, 0, k]" "i < N" "k < K"
      by (auto simp: list_all2_Cons2)
    have a: "get (Tensor [N, 1, 1] (data X)) (bidx [N, 1, 1] idx) = get X [i, 0]"
      using N idx by (simp add: bidx_def get_def X)
    have "get (Tensor [1, 1, K] (data ct)) (bidx [1, 1, K] idx) = get ct [0, k]"
      using K idx by (simp add: bidx_def get_def ct_def)
    also have "\<dots> = get C [k, 0]"
      unfolding ct_def using idx by (subst get_build) simp_all
    finally show "(get (Tensor [N, 1, 1] (data X)) (bidx [N, 1, 1] idx)
         - get (Tensor [1, 1, K] (data ct)) (bidx [1, 1, K] idx))\<^sup>2
       = (get X [hd idx, 0] - get C [idx ! 2, 0])\<^sup>2"
      using a idx by simp
  qed
  have sqz: "squeeze diff = Tensor [N, K] (data diff)"
    using N K by (simp add: squeeze_def diff_def)
  have am: "argmin 1 (Tensor [N, K] (data diff)) =
     Inr (build [N] (\<lambda>idx. argmin_list (map (\<lambda>k. (get X [hd idx, 0] - get C [k, 0]) ^ 2) [0..<K])))"
  proof -
    have "build [N] (\<lambda>idx. argmin_list (map (\<lambda>j. get (Tensor [N, K] (data diff))
              (take 1 idx @ [j] @ drop 1 idx)) [0..<K]))
       = build [N] (\<lambda>idx. argmin_list (map (\<lambda>k. (get X [hd idx, 0] - get C [k, 0]) ^ 2) [0..<K]))"
    proof (rule build_cong)
      fix idx assume "list_all2 (<) idx [N]"
      then obtain i where idx: "idx = [i]" "i < N"
        by (auto simp: list_all2_Cons2)
      have "get (Tensor [N, K] (data diff)) [i, j] = (get X [i, 0] - get C [j, 0]) ^ 2"
        if "j < K" for j
      proof -
        have "get (Tensor [N, K] (data diff)) [i, j] = get diff [i, 0, j]"
          by (rule get_reshape) (simp add: diff_def)
        also have "\<dots> = (get X [i, 0] - get C [j, 0]) ^ 2"
          unfolding diff_def using idx that by (subst get_build) simp_all
        finally show ?thesis .
      qed
      then have meq: "map (\<lambda>j. get (Tensor [N, K] (data diff)) [i, j]) [0..<K]
         = map (\<lambda>k. (get X [i, 0] - get C [k, 0]) ^ 2) [0..<K]"
        by simp
      show "argmin_list (map (\<lambda>j. get (Tensor [N, K] (data diff))
              (take 1 idx @ [j] @ drop 1 idx)) [0..<K])
         = argmin_list (map (\<lambda>k. (get X [hd idx, 0] - get C [k, 0]) ^ 2) [0..<K])"
        unfolding idx(1) by (simp add: meq)
    qed
    then show ?thesis using K by (simp add: argmin_def)
  qed
  have "choose_centers X C = argmin 1 (Tensor [N, K] (data diff))"
    unfolding choose_centers_def t u1 u2 b sq sqz bind.simps by (simp add: X C)
  then show ?thesis
    by (simp only: am)
qed

lemma indices_1: "indices [n] = map (\<lambda>i. [i]) [0..<n]"
  by (simp add: comp_def)

lemma indices_col: "indices [n, 1] = map (\<lambda>i. [i, 0]) [0..<n]"
  by (simp add: comp_def)

lemma get_build_1: "i < n \<Longrightarrow> get (build [n] f) [i] = f [i]"
  by (simp add: get_build)

lemma get_build_2: "i < n \<Longrightarrow> j < m \<Longrightarrow> get (build [n, m] f) [i, j] = f [i, j]"
  by (simp add: get_build)

lemma argmin_from_spec:
  assumes "length pre = i" "best < i" "bv = (pre @ xs) ! best"
    "\<forall>j<i. bv \<le> (pre @ xs) ! j" "\<forall>j<best. bv < (pre @ xs) ! j"
  shows "argmin_from best bv i xs < i + length xs
     \<and> (\<forall>j<i + length xs. (pre @ xs) ! argmin_from best bv i xs \<le> (pre @ xs) ! j)
     \<and> (\<forall>j<argmin_from best bv i xs. (pre @ xs) ! argmin_from best bv i xs < (pre @ xs) ! j)"
  using assms
proof (induction xs arbitrary: pre i best bv)
  case Nil
  then show ?case by simp
next
  case (Cons x xs)
  have split: "pre @ x # xs = (pre @ [x]) @ xs" by simp
  have xi: "(pre @ x # xs) ! i = x" using Cons.prems(1) by (simp add: nth_append)
  show ?case
  proof (cases "x < bv")
    case True
    have a: "\<forall>j<Suc i. x \<le> ((pre @ [x]) @ xs) ! j"
    proof (intro allI impI)
      fix j assume "j < Suc i"
      then consider "j < i" | "j = i" by linarith
      then show "x \<le> ((pre @ [x]) @ xs) ! j"
      proof cases
        case 1
        then show ?thesis using Cons.prems(4) True by (fastforce simp del: append_assoc simp: split [symmetric])
      next
        case 2
        then show ?thesis using xi by (simp del: append_assoc add: split [symmetric])
      qed
    qed
    have b: "\<forall>j<i. x < ((pre @ [x]) @ xs) ! j"
      using Cons.prems(4) True by (fastforce simp del: append_assoc simp: split [symmetric])
    have "argmin_from i x (Suc i) xs < Suc i + length xs
     \<and> (\<forall>j<Suc i + length xs. ((pre @ [x]) @ xs) ! argmin_from i x (Suc i) xs \<le> ((pre @ [x]) @ xs) ! j)
     \<and> (\<forall>j<argmin_from i x (Suc i) xs. ((pre @ [x]) @ xs) ! argmin_from i x (Suc i) xs < ((pre @ [x]) @ xs) ! j)"
      using Cons.prems(1) xi a b
      by (intro Cons.IH) (simp_all del: append_assoc add: split [symmetric])
    then show ?thesis using True by simp
  next
    case False
    have a: "\<forall>j<Suc i. bv \<le> ((pre @ [x]) @ xs) ! j"
    proof (intro allI impI)
      fix j assume "j < Suc i"
      then consider "j < i" | "j = i" by linarith
      then show "bv \<le> ((pre @ [x]) @ xs) ! j"
      proof cases
        case 1
        then show ?thesis using Cons.prems(4) by (simp del: append_assoc add: split [symmetric])
      next
        case 2
        then show ?thesis using xi False by (simp del: append_assoc add: split [symmetric])
      qed
    qed
    have "argmin_from best bv (Suc i) xs < Suc i + length xs
     \<and> (\<forall>j<Suc i + length xs. ((pre @ [x]) @ xs) ! argmin_from best bv (Suc i) xs \<le> ((pre @ [x]) @ xs) ! j)
     \<and> (\<forall>j<argmin_from best bv (Suc i) xs. ((pre @ [x]) @ xs) ! argmin_from best bv (Suc i) xs < ((pre @ [x]) @ xs) ! j)"
      using Cons.prems a
      by (intro Cons.IH) (simp_all del: append_assoc add: split [symmetric])
    then show ?thesis using False by simp
  qed
qed

lemma argmin_list_spec:
  assumes "xs \<noteq> []"
  shows "argmin_list xs < length xs"
    and "j < length xs \<Longrightarrow> xs ! argmin_list xs \<le> xs ! j"
    and "j < argmin_list xs \<Longrightarrow> xs ! argmin_list xs < xs ! j"
proof -
  obtain x ys where xs: "xs = x # ys" using assms by (cases xs) auto
  have "argmin_from 0 x 1 ys < 1 + length ys
     \<and> (\<forall>j<1 + length ys. ([x] @ ys) ! argmin_from 0 x 1 ys \<le> ([x] @ ys) ! j)
     \<and> (\<forall>j<argmin_from 0 x 1 ys. ([x] @ ys) ! argmin_from 0 x 1 ys < ([x] @ ys) ! j)"
    by (rule argmin_from_spec) simp_all
  then have s: "argmin_list xs < length xs
     \<and> (\<forall>j<length xs. xs ! argmin_list xs \<le> xs ! j)
     \<and> (\<forall>j<argmin_list xs. xs ! argmin_list xs < xs ! j)"
    by (simp add: xs argmin_list_def)
  show "argmin_list xs < length xs" using s by simp
  show "j < length xs \<Longrightarrow> xs ! argmin_list xs \<le> xs ! j" using s by simp
  show "j < argmin_list xs \<Longrightarrow> xs ! argmin_list xs < xs ! j" using s by simp
qed

lemma unsqueeze_1_vec: "shape t = [n] \<Longrightarrow> unsqueeze 1 t = Inr (Tensor [n, 1] (data t))"
  by (simp add: unsqueeze_def)

lemma valid_1: "list_all2 (<) idx [n] \<longleftrightarrow> (\<exists>i<n. idx = [i])"
  by (auto simp: list_all2_Cons2)

lemma valid_2: "list_all2 (<) idx [n, m] \<longleftrightarrow> (\<exists>i<n. \<exists>j<m. idx = [i, j])"
  by (auto simp: list_all2_Cons2)

lemma shape_tmap [simp]: "shape (tmap f t) = shape t"
  by (simp add: tmap_def)

lemma data_tmap [simp]: "data (tmap f t) = map f (data t)"
  by (simp add: tmap_def)

lemma get_col_build: "i < n \<Longrightarrow> get (Tensor [n, 1] (data (build [n] f))) [i, 0] = f [i]"
proof -
  assume i: "i < n"
  have "get (Tensor [n, 1] (data (build [n] f))) [i, 0] = get (build [n] f) [i]"
    by (rule get_reshape) simp
  also have "\<dots> = f [i]"
    using i by (rule get_build_1)
  finally show ?thesis .
qed

lemma scatter_col:
  assumes oh: "shape oh0 = [N, K]" "length (data oh0) = N * K"
    and f: "\<And>i. i < N \<Longrightarrow> f [i] < K"
  shows "scatter (tmap (\<lambda>x. 0) oh0) 1 (Tensor [N, 1] (data (build [N] f))) 1
     = Inr (build [N, K] (\<lambda>idx. if f [hd idx] = idx ! 1 then 1 else 0))"
proof -
  let ?ix = "Tensor [N, 1] (data (build [N] f))"
  let ?self = "tmap (\<lambda>x. 0::real) oh0"
  have ix: "get ?ix [i, 0] = f [i]" if "i < N" for i
    using that by (rule get_col_build)
  have bounds: "\<not> list_ex (\<lambda>j. K \<le> j) (data (build [N] f))"
    using f by (fastforce simp: build_def indices_1 list_ex_iff not_le [symmetric])
  have dims: "\<not> list_ex (\<lambda>k. k \<noteq> 1 \<and> [N, K] ! k < [N, 1::nat] ! k) [0..<2]"
    by (simp add: list_ex_iff numeral_2_eq_2 less_Suc_eq)
  have body: "build [N, K]
       (\<lambda>idx. if list_ex (\<lambda>p. p[1 := get ?ix p] = idx) (indices [N, 1]) then 1 else get ?self idx)
     = build [N, K] (\<lambda>idx. if f [hd idx] = idx ! 1 then 1 else 0)"
  proof (rule build_cong)
    fix idx assume "list_all2 (<) idx [N, K]"
    then obtain i k where idx: "idx = [i, k]" "i < N" "k < K"
      by (auto simp: valid_2)
    have ex: "list_ex (\<lambda>p. p[1 := get ?ix p] = idx) (indices [N, 1]) \<longleftrightarrow> f [i] = k"
    proof -
      have "list_ex (\<lambda>p. p[1 := get ?ix p] = idx) (indices [N, 1])
          \<longleftrightarrow> (\<exists>i'<N. [i', get ?ix [i', 0]] = [i, k])"
        unfolding indices_col idx by (auto simp: list_ex_iff)
      also have "\<dots> \<longleftrightarrow> f [i] = k"
        using idx ix by auto
      finally show ?thesis .
    qed
    have "offset [N, K] [i, k] < N * K"
      using offset_less [of "[i, k]" "[N, K]"] idx by simp
    then have z: "get ?self idx = 0"
      using oh idx by (simp add: get_def)
    show "(if list_ex (\<lambda>p. p[1 := get ?ix p] = idx) (indices [N, 1]) then 1 else get ?self idx)
       = (if f [hd idx] = idx ! 1 then 1 else 0)"
      unfolding ex z using idx by simp
  qed
  show ?thesis
  proof (cases "N = 0")
    case True
    have "oh0 = Tensor [0, K] []"
      using oh True by (cases oh0) simp
    then show ?thesis
      using True by (simp add: scatter_def tmap_def build_def)
  next
    case False
    then have "scatter ?self 1 ?ix 1 = Inr (build [N, K]
       (\<lambda>idx. if list_ex (\<lambda>p. p[1 := get ?ix p] = idx) (indices [N, 1]) then 1 else get ?self idx))"
      using oh bounds dims by (simp add: scatter_def)
    then show ?thesis
      by (simp only: body)
  qed
qed

lemma broadcast_rev_same: "broadcast_rev xs xs = Some xs"
  by (induction xs) simp_all

lemma broadcast_shapes_same: "broadcast_shapes sh sh = Some sh"
  by (simp add: broadcast_shapes_def broadcast_rev_same)

lemma broadcast_shapes_col_row:
  "K \<noteq> 1 \<Longrightarrow> broadcast_shapes [N, 1] [N, K] = Some [N, K]"
  by (simp add: broadcast_shapes_def)

lemma bidx_col: "N \<noteq> 1 \<Longrightarrow> bidx [N, 1] [i, k] = [i, 0]"
  by (simp add: bidx_def)

lemma bidx_same_2: "N \<noteq> 1 \<Longrightarrow> K \<noteq> 1 \<Longrightarrow> bidx [N, K] [i, k] = [i, k]"
  by (simp add: bidx_def)

lemma bidx_same_1: "k < K \<Longrightarrow> bidx [K] [k] = [k]"
  by (simp add: bidx_def)

lemma bidx_same_col: "k < K \<Longrightarrow> bidx [K, 1] [k, 0] = [k, 0]"
  by (simp add: bidx_def)

lemma binop_col_mul:
  assumes X: "shape X = [N, 1]" and N: "N \<noteq> 1" and K: "K \<noteq> 1"
  shows "binop (*) X (build [N, K] g) = Inr (build [N, K] (\<lambda>idx. get X [hd idx, 0] * g idx))"
proof -
  have "build [N, K] (\<lambda>idx. get X (bidx [N, 1] idx) * get (build [N, K] g) (bidx [N, K] idx))
      = build [N, K] (\<lambda>idx. get X [hd idx, 0] * g idx)"
  proof (rule build_cong)
    fix idx assume "list_all2 (<) idx [N, K]"
    then obtain i k where idx: "idx = [i, k]" "i < N" "k < K"
      by (auto simp: valid_2)
    show "get X (bidx [N, 1] idx) * get (build [N, K] g) (bidx [N, K] idx)
        = get X [hd idx, 0] * g idx"
      unfolding idx(1) bidx_col [OF N] bidx_same_2 [OF N K]
      using idx by (simp add: get_build_2)
  qed
  then show ?thesis
    using broadcast_shapes_col_row [OF K, of N] by (simp add: binop_def X)
qed

lemma sum_dim_0_build:
  "sum_dim 0 (build [N, K] h) = Inr (build [K] (\<lambda>idx. sum_list (map (\<lambda>i. h [i, hd idx]) [0..<N])))"
proof -
  have "build [K] (\<lambda>idx. sum_list (map (\<lambda>j. get (build [N, K] h) (j # idx)) [0..<N]))
      = build [K] (\<lambda>idx. sum_list (map (\<lambda>i. h [i, hd idx]) [0..<N]))"
  proof (rule build_cong)
    fix idx assume "list_all2 (<) idx [K]"
    then obtain k where idx: "idx = [k]" "k < K"
      by (auto simp: valid_1)
    have meq: "map (\<lambda>j. get (build [N, K] h) [j, k]) [0..<N] = map (\<lambda>i. h [i, k]) [0..<N]"
      using idx by (simp add: get_build_2)
    show "sum_list (map (\<lambda>j. get (build [N, K] h) (j # idx)) [0..<N])
        = sum_list (map (\<lambda>i. h [i, hd idx]) [0..<N])"
      unfolding idx(1) by (simp add: meq)
  qed
  then show ?thesis
    by (simp add: sum_dim_def)
qed

lemma nonzero_build:
  "nonzero (build [K] c)
     = Tensor [length (filter (\<lambda>k. c [k] \<noteq> 0) [0..<K]), 1] (filter (\<lambda>k. c [k] \<noteq> 0) [0..<K])"
proof -
  have "filter (\<lambda>x. get (build [K] c) [x] \<noteq> 0) [0..<K] = filter (\<lambda>k. c [k] \<noteq> 0) [0..<K]"
    by (rule filter_cong) (simp_all add: get_build_1)
  then have "filter (\<lambda>idx. get (build [K] c) idx \<noteq> 0) (indices [K])
      = map (\<lambda>i. [i]) (filter (\<lambda>k. c [k] \<noteq> 0) [0..<K])"
    unfolding indices_1 filter_map by (simp add: comp_def)
  then show ?thesis
    by (simp add: nonzero_def Let_def comp_def)
qed

lemma index_vec:
  assumes nz: "\<And>j. j \<in> set nz \<Longrightarrow> j < K" and m: "length nz = m"
  shows "index (build [K] c) (Tensor [m, 1] nz) = Inr (build [m, 1] (\<lambda>idx. c [nz ! hd idx]))"
proof -
  let ?ix = "Tensor [m, 1] nz"
  have "build (shape ?ix)
          (\<lambda>idx. get (build [K] c)
             (get ?ix (take (length (shape ?ix)) idx) # drop (length (shape ?ix)) idx))
      = build (shape ?ix) (\<lambda>idx. c [nz ! hd idx])"
  proof (rule build_cong)
    fix idx assume "list_all2 (<) idx (shape ?ix)"
    then obtain r where idx: "idx = [r, 0]" "r < m"
      by (auto simp: valid_2)
    have g: "get (Tensor [m, 1] nz) [r, 0] = nz ! r"
      by (simp add: get_def)
    have "nz ! r < K" using idx m nz by simp
    then show "get (build [K] c)
             (get ?ix (take (length (shape ?ix)) idx) # drop (length (shape ?ix)) idx)
          = c [nz ! hd idx]"
      unfolding idx(1) using g by (simp add: get_build_1)
  qed
  moreover have "\<not> list_ex (\<lambda>i. K \<le> i) nz"
    using nz by (fastforce simp: list_ex_iff not_le [symmetric])
  ultimately show ?thesis
    by (simp add: index_def)
qed

lemma index_put_recip:
  fixes c :: "nat list \<Rightarrow> real" and K :: nat
  defines "nz \<equiv> filter (\<lambda>k. c [k] \<noteq> 0) [0..<K]"
  shows "index_put (build [K] c) (Tensor [length nz, 1] nz)
           (tmap (\<lambda>x. 1 / x) (build [length nz, 1] (\<lambda>idx. c [nz ! hd idx])))
     = Inr (build [K] (\<lambda>idx. if c idx \<noteq> 0 then 1 / c idx else c idx))"
proof -
  let ?m = "length nz"
  let ?ix = "Tensor [?m, 1] nz"
  let ?v = "tmap (\<lambda>x. 1 / x) (build [?m, 1] (\<lambda>idx. c [nz ! hd idx]))"
  have v: "?v = build [?m, 1] (\<lambda>idx. 1 / c [nz ! hd idx])"
    by (rule tmap_build)
  have ixr: "get ?ix [r, 0] = nz ! r" for r
    by (simp add: get_def)
  have body: "build [K]
       (\<lambda>idx. case filter (\<lambda>p. get ?ix p = hd idx) (indices [?m, 1]) of
            [] \<Rightarrow> get (build [K] c) idx
          | p # ps \<Rightarrow> get ?v (bidx [?m, 1] (last (p # ps) @ tl idx)))
     = build [K] (\<lambda>idx. if c idx \<noteq> 0 then 1 / c idx else c idx)"
  proof (rule build_cong)
    fix idx assume "list_all2 (<) idx [K]"
    then obtain k where idx: "idx = [k]" "k < K"
      by (auto simp: valid_1)
    let ?hits = "filter (\<lambda>p. get ?ix p = k) (indices [?m, 1])"
    have hit: "p \<in> set ?hits \<longleftrightarrow> (\<exists>r<?m. p = [r, 0] \<and> nz ! r = k)" for p
      unfolding indices_col using ixr by auto
    have mem: "k \<in> set nz \<longleftrightarrow> c [k] \<noteq> 0"
      using idx by (simp add: nz_def)
    show "(case filter (\<lambda>p. get ?ix p = hd idx) (indices [?m, 1]) of
            [] \<Rightarrow> get (build [K] c) idx
          | p # ps \<Rightarrow> get ?v (bidx [?m, 1] (last (p # ps) @ tl idx)))
       = (if c idx \<noteq> 0 then 1 / c idx else c idx)"
    proof (cases ?hits)
      case Nil
      then have "\<not> (\<exists>r<?m. nz ! r = k)"
        using hit by (metis empty_iff list.set(1))
      then have "k \<notin> set nz"
        by (auto simp: in_set_conv_nth)
      then have "c [k] = 0" using mem by simp
      then show ?thesis
        unfolding idx(1) using Nil idx by (simp add: get_build_1)
    next
      case (Cons p ps)
      then have "last (p # ps) \<in> set ?hits"
        by (metis last_in_set list.distinct(1))
      then obtain r where r: "r < ?m" "last (p # ps) = [r, 0]" "nz ! r = k"
        using hit by blast
      then have "k \<in> set nz"
        by (auto simp: in_set_conv_nth)
      then have nonz: "c [k] \<noteq> 0" using mem by simp
      have "get ?v (bidx [?m, 1] [r, 0]) = get ?v [r, 0]"
        using r(1) by (simp only: bidx_same_col)
      also have "\<dots> = 1 / c [nz ! r]"
        unfolding v using r by (simp add: get_build_2)
      finally have "get ?v (bidx [?m, 1] [r, 0]) = 1 / c [k]"
        using r by simp
      then show ?thesis
        unfolding idx(1) using Cons r nonz by simp
    qed
  qed
  have bounds: "list_ex (\<lambda>i. K \<le> i) nz = False"
    by (auto simp: list_ex_iff nz_def)
  show ?thesis
    by (simp only: index_put_def shape_build shape_tmap tensor.sel list.case append_Nil2
          bounds broadcast_shapes_same if_False if_True body simp_thms)
qed

lemma binop_vec_mul:
  "binop (*) (build [K] p) (build [K] r) = Inr (build [K] (\<lambda>idx. p idx * (r idx :: real)))"
proof -
  have "build [K] (\<lambda>idx. get (build [K] p) (bidx [K] idx) * get (build [K] r) (bidx [K] idx))
      = build [K] (\<lambda>idx. p idx * r idx)"
  proof (rule build_cong)
    fix idx assume "list_all2 (<) idx [K]"
    then obtain k where idx: "idx = [k]" "k < K"
      by (auto simp: valid_1)
    show "get (build [K] p) (bidx [K] idx) * get (build [K] r) (bidx [K] idx) = p idx * r idx"
      unfolding idx(1) using idx by (simp add: bidx_same_1 get_build_1)
  qed
  then show ?thesis
    using broadcast_shapes_same [of "[K]"] by (simp add: binop_def)
qed

lemma sum_dim_1_build:
  "sum_dim 1 (build [K, d] h) = Inr (build [K] (\<lambda>idx. sum_list (map (\<lambda>j. h [hd idx, j]) [0..<d])))"
proof -
  have "build [K] (\<lambda>idx. sum_list (map (\<lambda>j. get (build [K, d] h) (take 1 idx @ [j] @ drop 1 idx)) [0..<d]))
      = build [K] (\<lambda>idx. sum_list (map (\<lambda>j. h [hd idx, j]) [0..<d]))"
  proof (rule build_cong)
    fix idx assume "list_all2 (<) idx [K]"
    then obtain k where idx: "idx = [k]" "k < K"
      by (auto simp: valid_1)
    have meq: "map (\<lambda>j. get (build [K, d] h) [k, j]) [0..<d] = map (\<lambda>j. h [k, j]) [0..<d]"
      using idx by (simp add: get_build_2)
    show "sum_list (map (\<lambda>j. get (build [K, d] h) (take 1 idx @ [j] @ drop 1 idx)) [0..<d])
        = sum_list (map (\<lambda>j. h [hd idx, j]) [0..<d])"
      unfolding idx(1) by (simp add: meq)
  qed
  then show ?thesis
    by (simp add: sum_dim_def)
qed

lemma center_shift_col:
  assumes A: "shape A = [K, 1]" and C: "shape C = [K, 1]"
  shows "center_shift A C = Inr (sum_list (map (\<lambda>k. \<bar>get A [k, 0] - get C [k, 0]\<bar>) [0..<K]))"
proof -
  let ?h = "\<lambda>idx. (get A (bidx [K, 1] idx) - get C (bidx [K, 1] idx)) ^ 2"
  have b: "binop (-) A C = Inr (build [K, 1] (\<lambda>idx. get A (bidx [K, 1] idx) - get C (bidx [K, 1] idx)))"
    using broadcast_shapes_same [of "[K, 1]"] by (simp add: binop_def A C)
  have sq: "tmap (\<lambda>x. x ^ 2) (build [K, 1] (\<lambda>idx. get A (bidx [K, 1] idx) - get C (bidx [K, 1] idx)))
      = build [K, 1] ?h"
    by (rule tmap_build)
  have s1: "sum_dim 1 (build [K, 1] ?h) = Inr (build [K] (\<lambda>idx. sum_list (map (\<lambda>j. ?h [hd idx, j]) [0..<1])))"
    by (rule sum_dim_1_build)
  have rt: "tmap sqrt (build [K] (\<lambda>idx. sum_list (map (\<lambda>j. ?h [hd idx, j]) [0..<1])))
      = build [K] (\<lambda>idx. \<bar>get A [hd idx, 0] - get C [hd idx, 0]\<bar>)"
    unfolding tmap_build
  proof (rule build_cong)
    fix idx assume "list_all2 (<) idx [K]"
    then obtain k where idx: "idx = [k]" "k < K"
      by (auto simp: valid_1)
    have "bidx [K, 1] [k, 0] = [k, 0]"
      using idx(2) by (rule bidx_same_col)
    then show "sqrt (sum_list (map (\<lambda>j. ?h [hd idx, j]) [0..<1]))
        = \<bar>get A [hd idx, 0] - get C [hd idx, 0]\<bar>"
      unfolding idx(1) by simp
  qed
  have it: "item (sum_all (build [K] (\<lambda>idx. \<bar>get A [hd idx, 0] - get C [hd idx, 0]\<bar>)))
      = Inr (sum_list (map (\<lambda>k. \<bar>get A [k, 0] - get C [k, 0]\<bar>) [0..<K]))"
    by (simp add: item_def sum_all_def build_def comp_def)
  show ?thesis
    by (simp only: center_shift_def b bind.simps sq s1 rt it)
qed

lemma center_shift_mismatch:
  assumes A: "shape A = [K, 1]" and C: "shape C = [Kc, 1]"
    and ne: "K \<noteq> Kc" "K \<noteq> 1" "Kc \<noteq> 1"
  shows "center_shift A C = Inl RuntimeError"
  using ne by (simp add: center_shift_def binop_def broadcast_shapes_def A C)

lemma col_assign_less: "shape C = [Kc, 1] \<Longrightarrow> 0 < Kc \<Longrightarrow> col_assign X C i < Kc"
  using argmin_list_spec(1) [of "map (\<lambda>k. (get X [i, 0] - get C [k, 0]) ^ 2) [0..<Kc]"]
  by (simp add: col_assign_def)

lemma m_step_col:
  assumes X: "shape X = [N, 1]" and C: "shape (centers s) = [Kc, 1]"
    and oh_s: "shape (one_hot s) = [N, K]" "length (data (one_hot s)) = N * K"
    and N: "N \<noteq> 1" and Kc: "2 \<le> Kc" "Kc \<le> K"
  shows "m_step X s =
     Inr (build [N] (\<lambda>idx. col_assign X (centers s) (hd idx)),
          build [N, K] (\<lambda>idx. if col_assign X (centers s) (hd idx) = idx ! 1 then 1 else 0),
          Tensor [K, 1] (data (build [K]
                (\<lambda>idx. col_center X (col_assign X (centers s)) N (hd idx)))))"
proof -
  define a where "a = col_assign X (centers s)"
  define cc where "cc = build [N] (\<lambda>idx. a (hd idx))"
  define ix where "ix = Tensor [N, 1] (data cc)"
  define oh where "oh = build [N, K] (\<lambda>idx. if a (hd idx) = idx ! 1 then (1::real) else 0)"
  define Xoh where "Xoh = build [N, K]
      (\<lambda>idx. get X [hd idx, 0] * (if a (hd idx) = idx ! 1 then 1 else 0))"
  define Xp where "Xp = build [K] (\<lambda>idx. col_sum X a N (hd idx))"
  define Xsum where "Xsum = build [K] (\<lambda>idx. col_count a N (hd idx))"
  define nzl where "nzl = filter (\<lambda>k. col_count a N k \<noteq> 0) [0..<K]"
  define nzt where "nzt = Tensor [length nzl, 1] nzl"
  define sel where "sel = build [length nzl, 1] (\<lambda>idx. col_count a N (nzl ! hd idx))"
  define Xsum' where "Xsum' = build [K]
      (\<lambda>idx. if col_count a N (hd idx) \<noteq> 0 then 1 / col_count a N (hd idx)
             else col_count a N (hd idx))"
  define m where "m = build [K] (\<lambda>idx. col_center X a N (hd idx))"
  define new where "new = Tensor [K, 1] (data m)"
  have N1: "N \<noteq> 1" and K1: "K \<noteq> 1" and Kc0: "0 < Kc"
    using N Kc by simp_all
  have f1: "choose_centers X (centers s) = Inr cc"
    using choose_centers_col [OF X C N1 Kc(1)]
    by (simp add: cc_def a_def col_assign_def C)
  have f2: "unsqueeze 1 cc = Inr ix"
    unfolding ix_def by (rule unsqueeze_1_vec) (simp add: cc_def)
  have f3: "scatter (tmap (\<lambda>x. 0) (one_hot s)) 1 ix 1 = Inr oh"
  proof -
    have "a i < K" for i
      using col_assign_less [OF C Kc0, of X i] Kc(2) by (simp add: a_def)
    then show ?thesis
      using scatter_col [OF oh_s, of "\<lambda>idx. a (hd idx)"]
      by (simp add: ix_def cc_def oh_def)
  qed
  have f4: "binop (*) X oh = Inr Xoh"
    using binop_col_mul [OF X N1 K1, of "\<lambda>idx. if a (hd idx) = idx ! 1 then 1 else 0"]
    by (simp add: oh_def Xoh_def)
  have f5: "sum_dim 0 Xoh = Inr Xp"
    using sum_dim_0_build [of N K "\<lambda>idx. get X [hd idx, 0] * (if a (hd idx) = idx ! 1 then 1 else 0)"]
    by (simp add: Xoh_def Xp_def col_sum_def)
  have f6: "sum_dim 0 oh = Inr Xsum"
    using sum_dim_0_build [of N K "\<lambda>idx. if a (hd idx) = idx ! 1 then 1 else 0"]
    by (simp add: oh_def Xsum_def col_count_def)
  have f7: "nonzero Xsum = nzt"
    using nonzero_build [of K "\<lambda>idx. col_count a N (hd idx)"]
    by (simp add: Xsum_def nzt_def nzl_def)
  have f8: "index Xsum nzt = Inr sel"
    using index_vec [of nzl K "length nzl" "\<lambda>idx. col_count a N (hd idx)"]
    by (simp add: Xsum_def nzt_def sel_def nzl_def)
  have f9: "index_put Xsum nzt (tmap (\<lambda>x. 1 / x) sel) = Inr Xsum'"
    using index_put_recip [where c = "\<lambda>idx. col_count a N (hd idx)" and K = K]
    by (simp add: Xsum_def nzt_def sel_def nzl_def Xsum'_def)
  have f10: "binop (*) Xp Xsum' = Inr m"
    using binop_vec_mul [of K "\<lambda>idx. col_sum X a N (hd idx)"
        "\<lambda>idx. if col_count a N (hd idx) \<noteq> 0 then 1 / col_count a N (hd idx)
             else col_count a N (hd idx)"]
    by (simp add: Xp_def Xsum'_def m_def col_center_def)
  have f11: "unsqueeze 1 m = Inr new"
    unfolding new_def by (rule unsqueeze_1_vec) (simp add: m_def)
  have "m_step X s = Inr (cc, oh, new)"
    by (simp only: m_step_def f1 f2 f3 f4 f5 f6 f7 f8 f9 f10 f11 bind.simps)
  then show ?thesis
    by (simp only: new_def m_def cc_def oh_def a_def)
qed

lemma sum_list_indicator:
  "sum_list (map (\<lambda>i. f i * (if P i then 1 else 0)) xs) = sum_list (map f (filter P xs))"
  for f :: "'a \<Rightarrow> real"
  by (induction xs) simp_all

lemma col_sum_members:
  "col_sum X a N k = sum_list (map (\<lambda>i. get X [i, 0]) (filter (\<lambda>i. a i = k) [0..<N]))"
  unfolding col_sum_def by (rule sum_list_indicator)

lemma col_count_members: "col_count a N k = real (length (filter (\<lambda>i. a i = k) [0..<N]))"
proof -
  have "sum_list (map (\<lambda>i. if P i then 1 else 0) xs) = real (length (filter P xs))"
    for P :: "nat \<Rightarrow> bool" and xs
    by (induction xs) simp_all
  then show ?thesis by (simp add: col_count_def)
qed

lemma members_build:
  "members (build [N] (\<lambda>idx. a (hd idx))) N k = filter (\<lambda>i. a i = k) [0..<N]"
  unfolding members_def by (rule filter_cong) (simp_all add: get_build_1)

lemma col_center_empty: "filter (\<lambda>i. a i = k) [0..<N] = [] \<Longrightarrow> col_center X a N k = 0"
  by (simp add: col_center_def col_count_members col_sum_members)

lemma col_center_mean:
  "filter (\<lambda>i. a i = k) [0..<N] \<noteq> []
     \<Longrightarrow> col_center X a N k = mean_of X (filter (\<lambda>i. a i = k) [0..<N])"
  by (simp add: col_center_def col_count_members col_sum_members mean_of_def)

text \<open>One iteration of \<open>lloyd\<close> on column data, in closed form.\<close>

lemma lloyd_step_all_col:
  assumes X: "shape X = [N, 1]" and s: "col_state N K s" and N: "N \<noteq> 1" and K: "2 \<le> K"
  defines "a \<equiv> col_assign X (centers s)"
  defines "new \<equiv> Tensor [K, 1] (data (build [K] (\<lambda>idx. col_center X a N (hd idx))))"
  shows "lloyd_step X store_all s =
     Inr (\<lparr>choice_cluster = Some (build [N] (\<lambda>idx. a (hd idx))), centers = new,
            centers_old = Some (centers s),
            one_hot = build [N, K] (\<lambda>idx. if a (hd idx) = idx ! 1 then 1 else 0)\<rparr>,
          sum_list (map (\<lambda>k. \<bar>get new [k, 0] - get (centers s) [k, 0]\<bar>) [0..<K]))"
proof -
  have C: "shape (centers s) = [K, 1]"
    and oh: "shape (one_hot s) = [N, K]" "length (data (one_hot s)) = N * K"
    using s by (simp_all add: col_state_def)
  have m: "m_step X s = Inr (build [N] (\<lambda>idx. a (hd idx)),
          build [N, K] (\<lambda>idx. if a (hd idx) = idx ! 1 then 1 else 0), new)"
    unfolding a_def new_def by (rule m_step_col [OF X C oh N K]) simp
  have cs: "center_shift new (centers s)
      = Inr (sum_list (map (\<lambda>k. \<bar>get new [k, 0] - get (centers s) [k, 0]\<bar>) [0..<K]))"
    by (rule center_shift_col) (simp_all add: new_def C)
  show ?thesis
    by (simp only: lloyd_step_def m bind.simps store_all_def cs prod.case)
qed

text \<open>The shapes of \<open>col_state\<close> hold after the initialisation of \<open>lloyd\<close> when there are
  at least \<open>K\<close> points, and every iteration keeps them.\<close>

lemma lloyd_init_col_state:
  assumes "forgy_initialization X K perm = Inr c0" and "shape X = [N, 1]" and "K \<le> N"
  shows "col_state N K (init_state c0 (Tensor [N, K] (replicate (N * K) 0)))"
proof -
  have "shape c0 = [K, 1]"
    using assms by (auto simp: forgy_initialization_def randperm_def slice0_def slice_bounds_def
        index_def split: if_splits)
  then show ?thesis
    by (simp add: col_state_def init_state_def)
qed

lemma lloyd_step_all_col_state:
  assumes "shape X = [N, 1]" "col_state N K s" "N \<noteq> 1" "2 \<le> K"
    and "lloyd_step X store_all s = Inr (s', shift)"
  shows "col_state N K s'"
  using assms(5) unfolding lloyd_step_all_col [OF assms(1-4)]
  by (auto simp: col_state_def)

subsection \<open>The loop\<close>

lemma lloyd_loop_one: "step s = Inr (s', shift) \<Longrightarrow> lloyd_loop step tol 1 s = Inr s'"
  by simp

lemma bind_eq_Inr: "bind m f = Inr y \<longleftrightarrow> (\<exists>x. m = Inr x \<and> f x = Inr y)"
  by (cases m) simp_all

lemma choose_centers_col_fail:
  assumes "shape X = [N, 1]" and "shape C = [Kc, 1]" and "N = 1 \<or> Kc < 2"
  shows "choose_centers X C = Inl IndexError"
proof -
  have "Kc = 0 \<or> Kc = 1 \<or> (N = 1 \<and> 2 \<le> Kc)"
    using assms(3) by linarith
  then show ?thesis
    using assms(1,2)
    by (auto simp: choose_centers_def transpose_1_0_def unsqueeze_def binop_def
        broadcast_shapes_def squeeze_def argmin_def)
qed

lemma choose_centers_col_inv:
  assumes X: "shape X = [N, 1]" and r: "choose_centers X C = Inr cc"
  shows "\<exists>Kc. shape C = [Kc, 1] \<and> 2 \<le> Kc \<and> N \<noteq> 1
     \<and> cc = build [N] (\<lambda>idx. col_assign X C (hd idx))"
proof -
  have "length (shape C) = 2" and "shape C ! 1 = 1"
    using r X by (auto simp: choose_centers_def split: if_splits)
  then obtain Kc where C: "shape C = [Kc, 1]"
    by (cases "shape C"; cases "tl (shape C)") auto
  have "\<not> (N = 1 \<or> Kc < 2)"
    using choose_centers_col_fail [OF X C] r by auto
  then have ok: "N \<noteq> 1" "2 \<le> Kc"
    by simp_all
  have "cc = build [N] (\<lambda>idx. col_assign X C (hd idx))"
    using choose_centers_col [OF X C ok] r by (simp add: col_assign_def C)
  then show ?thesis
    using C ok by simp
qed

lemma forgy_shape:
  "forgy_initialization X K perm = Inr c0 \<Longrightarrow> shape X = N # rest \<Longrightarrow> shape c0 = min K N # rest"
  by (auto simp: forgy_initialization_def randperm_def slice0_def slice_bounds_def index_def
      bind_eq_Inr split: if_splits)

lemma zeros_2: "zeros [int N, int K] = Inr (Tensor [N, K] (replicate (N * K) 0))"
  by (simp add: zeros_def)

lemma lloyd_step_choice:
  assumes "lloyd_step X store s = Inr (s', sh)"
  shows "\<exists>cc. choose_centers X (centers s) = Inr cc \<and> choice_cluster s' = Some cc
     \<and> centers_old s' = Some (centers s)"
  using assms by (auto simp: lloyd_step_def m_step_def bind_eq_Inr)

lemma lloyd_loop_induct:
  assumes "P s" and "\<And>s s' sh. P s \<Longrightarrow> step s = Inr (s', sh) \<Longrightarrow> P s'"
    and "lloyd_loop step tol n s = Inr s'"
  shows "P s'"
  using assms(1,3)
proof (induction n arbitrary: s)
  case 0
  then show ?case by simp
next
  case (Suc n)
  then obtain s1 sh where st: "step s = Inr (s1, sh)"
    by (cases "step s") auto
  have P1: "P s1" using assms(2) Suc.prems(1) st by blast
  show ?case
  proof (cases "sh ^ 2 < tol")
    case True
    then show ?thesis using Suc.prems(2) st P1 by simp
  next
    case False
    then have "lloyd_loop step tol n s1 = Inr s'" using Suc.prems(2) st by simp
    then show ?thesis using Suc.IH P1 by blast
  qed
qed

lemma lloyd_step_all_inv:
  assumes X: "shape X = [N, 1]" and N: "N \<noteq> 1"
    and oh: "shape (one_hot s) = [N, K]" "length (data (one_hot s)) = N * K"
    and C: "shape (centers s) = [Kc, 1]" and Kc: "Kc \<le> K"
    and r: "lloyd_step X store_all s = Inr (s', sh)"
  shows "Kc = K \<and> 2 \<le> K \<and> col_state N K s'
     \<and> choice_cluster s' = Some (build [N] (\<lambda>idx. col_assign X (centers s) (hd idx)))
     \<and> centers_old s' = Some (centers s)"
proof -
  obtain cc where cc: "choose_centers X (centers s) = Inr cc"
    using lloyd_step_choice [OF r] by blast
  have Kc2: "2 \<le> Kc"
    using choose_centers_col_inv [OF X cc] C by simp
  let ?new = "Tensor [K, 1] (data (build [K]
                (\<lambda>idx. col_center X (col_assign X (centers s)) N (hd idx))))"
  note m = m_step_col [OF X C oh N Kc2 Kc]
  have st: "lloyd_step X store_all s =
     bind (center_shift ?new (centers s)) (\<lambda>shift.
       Inr (\<lparr>choice_cluster = Some (build [N] (\<lambda>idx. col_assign X (centers s) (hd idx))),
              centers = ?new, centers_old = Some (centers s),
              one_hot = build [N, K]
                (\<lambda>idx. if col_assign X (centers s) (hd idx) = idx ! 1 then 1 else 0)\<rparr>, shift))"
    by (simp only: lloyd_step_def m bind.simps prod.case store_all_def)
  have eq: "Kc = K"
  proof (rule ccontr)
    assume "Kc \<noteq> K"
    then have "center_shift ?new (centers s) = Inl RuntimeError"
      using Kc2 Kc by (intro center_shift_mismatch [where K = K and Kc = Kc]) (simp_all add: C)
    then show False using r unfolding st by simp
  qed
  obtain shift where "center_shift ?new (centers s) = Inr shift"
    using r unfolding st by (auto simp: bind_eq_Inr)
  then have "s' = \<lparr>choice_cluster = Some (build [N] (\<lambda>idx. col_assign X (centers s) (hd idx))),
              centers = ?new, centers_old = Some (centers s),
              one_hot = build [N, K]
                (\<lambda>idx. if col_assign X (centers s) (hd idx) = idx ! 1 then 1 else 0)\<rparr>"
    using r unfolding st by simp
  then show ?thesis
    using eq Kc2 by (simp add: col_state_def)
qed

text \<open>
  What holds of the variables of \<open>lloyd\<close> on column data whenever the loop is left: if
  an iteration has run, \<open>choice_cluster\<close> is the assignment to the centers that were
  current before the last update, which are kept in \<open>centers_old\<close>.
\<close>

lemma lloyd_loop_all_final:
  assumes loop: "lloyd_loop (lloyd_step X store_all) tol n s0 = Inr s"
    and X: "shape X = [N, 1]" and N: "N \<noteq> 1"
    and s0: "shape (one_hot s0) = [N, K]" "length (data (one_hot s0)) = N * K"
      "shape (centers s0) = [Kc, 1]" "Kc \<le> K" "choice_cluster s0 = None"
  shows "choice_cluster s = None
     \<or> (\<exists>cold. centers_old s = Some cold \<and> shape cold = [K, 1] \<and> 2 \<le> K \<and> col_state N K s
          \<and> choice_cluster s = Some (build [N] (\<lambda>idx. col_assign X cold (hd idx))))"
proof -
  define P where "P = (\<lambda>s. shape (one_hot s) = [N, K] \<and> length (data (one_hot s)) = N * K
     \<and> (\<exists>Kc. shape (centers s) = [Kc, 1] \<and> Kc \<le> K)
     \<and> (choice_cluster s = None
        \<or> (\<exists>cold. centers_old s = Some cold \<and> shape cold = [K, 1] \<and> 2 \<le> K \<and> col_state N K s
          \<and> choice_cluster s = Some (build [N] (\<lambda>idx. col_assign X cold (hd idx))))))"
  have P0: "P s0"
    using s0 by (simp add: P_def)
  have step: "P s2" if p: "P s1" and st: "lloyd_step X store_all s1 = Inr (s2, sh)" for s1 s2 sh
  proof -
    obtain Kc where s1: "shape (one_hot s1) = [N, K]" "length (data (one_hot s1)) = N * K"
        "shape (centers s1) = [Kc, 1]" "Kc \<le> K"
      using p by (auto simp: P_def)
    have inv: "Kc = K \<and> 2 \<le> K \<and> col_state N K s2
       \<and> choice_cluster s2 = Some (build [N] (\<lambda>idx. col_assign X (centers s1) (hd idx)))
       \<and> centers_old s2 = Some (centers s1)"
      by (rule lloyd_step_all_inv [OF X N s1 st])
    then show ?thesis
      using s1(3) by (auto simp: P_def col_state_def)
  qed
  have "P s"
    by (rule lloyd_loop_induct [where P = P, OF P0 _ loop]) (rule step)
  then show ?thesis
    by (simp add: P_def)
qed

lemma lloyd_run_final:
  assumes run: "lloyd_run X K tol max_iter perm = Inr s" and X: "shape X = [N, 1]" and N: "N \<noteq> 1"
  shows "choice_cluster s = None
     \<or> (\<exists>cold. centers_old s = Some cold \<and> shape cold = [K, 1] \<and> 2 \<le> K \<and> col_state N K s
          \<and> choice_cluster s = Some (build [N] (\<lambda>idx. col_assign X cold (hd idx))))"
proof -
  obtain c0 where c0: "forgy_initialization X K perm = Inr c0"
    and loop: "lloyd_loop (lloyd_step X store_all) tol max_iter
        (init_state c0 (Tensor [N, K] (replicate (N * K) 0))) = Inr s"
    using run by (auto simp: lloyd_run_def bind_eq_Inr X zeros_2)
  have "shape c0 = [min K N, 1]"
    using forgy_shape [OF c0 X] .
  then show ?thesis
    by (intro lloyd_loop_all_final [OF loop X N, where Kc = "min K N"])
      (simp_all add: init_state_def)
qed

lemma lloyd_run_choice:
  assumes run: "lloyd_run X K tol max_iter perm = Inr s"
  shows "choice_cluster s = None
     \<or> (\<exists>cold cc. centers_old s = Some cold \<and> choice_cluster s = Some cc
          \<and> choose_centers X cold = Inr cc)"
proof -
  define P where "P = (\<lambda>s :: kstate. choice_cluster s = None
     \<or> (\<exists>cold cc. centers_old s = Some cold \<and> choice_cluster s = Some cc
          \<and> choose_centers X cold = Inr cc))"
  obtain c0 oh where loop:
    "lloyd_loop (lloyd_step X store_all) tol max_iter (init_state c0 oh) = Inr s"
    using run by (cases "shape X") (auto simp: lloyd_run_def bind_eq_Inr)
  have P0: "P (init_state c0 oh)"
    by (simp add: P_def init_state_def)
  have step: "P s2" if st: "lloyd_step X store_all s1 = Inr (s2, sh)" for s1 s2 sh
    using lloyd_step_choice [OF st] by (auto simp: P_def)
  have "P s"
    by (rule lloyd_loop_induct [where P = P, OF P0 _ loop]) (rule step)
  then show ?thesis
    by (simp add: P_def)
qed

lemma sqdist_col: "shape X = [N, 1] \<Longrightarrow> sqdist X i C k = (get X [i, 0] - get C [k, 0]) ^ 2"
  by (simp add: sqdist_def)

lemma col_assign_nearest:
  assumes X: "shape X = [N, 1]" and C: "shape C = [K, 1]" and k: "k < K"
  shows "sqdist X i C (col_assign X C i) \<le> sqdist X i C k"
proof -
  let ?ds = "map (\<lambda>k. (get X [i, 0] - get C [k, 0]) ^ 2) [0..<K]"
  have ne: "?ds \<noteq> []" using k by auto
  have a: "col_assign X C i = argmin_list ?ds"
    by (simp add: col_assign_def C)
  have "argmin_list ?ds < K"
    using argmin_list_spec(1) [OF ne] by simp
  then have "?ds ! argmin_list ?ds = sqdist X i C (col_assign X C i)"
    by (simp add: a sqdist_col [OF X])
  moreover have "?ds ! k = sqdist X i C k"
    using k by (simp add: sqdist_col [OF X])
  moreover have "?ds ! argmin_list ?ds \<le> ?ds ! k"
    using argmin_list_spec(2) [OF ne, of k] k by simp
  ultimately show ?thesis by simp
qed

lemma is_perm_set: "is_perm n perm \<Longrightarrow> set perm = {0..<n}"
  unfolding is_perm_def by (metis set_sort set_upt)


lemma nat_min_int: "nat (min (int a) (int b)) = min a b"
  by (simp add: min_def)

lemma forgy_returns:
  assumes X: "shape X = N # rest" and p: "is_perm N perm"
  shows "\<exists>c0. forgy_initialization X K perm = Inr c0 \<and> shape c0 = min K N # rest"
proof -
  have "\<not> list_ex (\<lambda>i. N \<le> i) (take (min K N) perm)"
    using is_perm_set [OF p] by (auto simp: list_ex_iff dest!: in_set_takeD)
  then show ?thesis
    by (simp add: forgy_initialization_def randperm_def slice0_def slice_bounds_def index_def X
        nat_min_int)
qed

text \<open>With two or more features, points and centers, the assignment is a matrix.\<close>

lemma choose_centers_wide:
  assumes "shape X = [N, d]" and "shape C = [Kc, d]" and "2 \<le> N" and "2 \<le> d" and "2 \<le> Kc"
  shows "\<exists>cc. choose_centers X C = Inr cc \<and> shape cc = [N, Kc]"
  using assms
  by (simp add: choose_centers_def transpose_1_0_def unsqueeze_def binop_def
      broadcast_shapes_def squeeze_def argmin_def Let_def)

lemma m_step_wide:
  assumes X: "shape X = [N, d]" and C: "shape (centers s) = [Kc, d]"
    and oh: "shape (one_hot s) = [N, K]" and N: "2 \<le> N" and d: "2 \<le> d" and Kc: "2 \<le> Kc"
  shows "m_step X s = Inl RuntimeError"
proof -
  obtain cc where cc: "choose_centers X (centers s) = Inr cc" "shape cc = [N, Kc]"
    using choose_centers_wide [OF X C N d Kc] by blast
  have u: "unsqueeze 1 cc = Inr (Tensor [N, 1, Kc] (data cc))"
    by (simp add: unsqueeze_def cc(2))
  have "N * Kc \<noteq> 0" using N Kc by simp
  then have sc: "scatter (tmap (\<lambda>x. 0) (one_hot s)) 1 (Tensor [N, 1, Kc] (data cc)) 1
      = Inl RuntimeError"
    by (simp add: scatter_def oh)
  show ?thesis
    by (simp only: m_step_def cc(1) u sc bind.simps)
qed

lemma lloyd_loop_step_fails: "step s = Inl e \<Longrightarrow> lloyd_loop step tol (Suc n) s = Inl e"
  by simp

subsection \<open>The initialisation among the eligible rows\<close>

lemma nonzero_vec:
  "nonzero (Tensor [n] ds)
     = Tensor [length (filter (\<lambda>i. ds ! i \<noteq> 0) [0..<n]), 1] (filter (\<lambda>i. ds ! i \<noteq> 0) [0..<n])"
proof -
  have "filter (\<lambda>idx. get (Tensor [n] ds) idx \<noteq> 0) (indices [n])
      = map (\<lambda>i. [i]) (filter (\<lambda>i. ds ! i \<noteq> 0) [0..<n])"
    unfolding indices_1 filter_map by (simp add: comp_def get_def)
  then show ?thesis
    by (simp add: nonzero_def Let_def comp_def)
qed

lemma nonzero_view_flat:
  "nonzero (view_flat Xp) = Tensor [nnz_count Xp, 1] (eligible Xp)"
  "length (eligible Xp) = nnz_count Xp"
  "eligible Xp = filter (\<lambda>i. data Xp ! i \<noteq> 0) [0..<prod_list (shape Xp)]"
  by (simp_all add: nnz_count_def eligible_def view_flat_def nonzero_vec)

lemma index_shape:
  assumes "index t ix = Inr r"
  shows "shape r = shape ix @ tl (shape t)" and "length (data r) = prod_list (shape r)"
  using assms by (auto simp: index_def split: list.splits if_splits)

lemma zeros_1_1: "zeros [1, 1] = Inr (Tensor [1, 1] [0])"
  by (simp add: zeros_def)

lemma slice0_perm:
  "1 \<le> K \<Longrightarrow> slice0 0 (int K - 1) (randperm M perm)
     = Inr (Tensor [min (K - 1) M] (take (min (K - 1) M) perm))"
proof -
  assume K: "1 \<le> K"
  then have "nat (int K - 1) = K - 1" by simp
  moreover have "nat (min (int K - 1) (int M)) = min (K - 1) M"
    using K by (simp add: min_def) linarith
  ultimately show ?thesis
    using K by (simp add: slice0_def slice_bounds_def randperm_def)
qed

lemma forgy_nnz_result:
  assumes r: "forgy_initialization_nnz X Xp K perm = Inr c0" and X: "shape X = [N, 1]"
    and K: "1 \<le> K"
  shows "shape c0 = [Suc (min (K - 1) (nnz_count Xp)), 1]"
    and "get c0 [min (K - 1) (nnz_count Xp), 0] = 0"
    and "min (K - 1) (nnz_count Xp) \<noteq> 1"
proof -
  define m where "m = min (K - 1) (nnz_count Xp)"
  obtain sel rows where sel: "index (nonzero (view_flat Xp)) (Tensor [m] (take m perm)) = Inr sel"
    and rows: "index X (squeeze sel) = Inr rows"
    and c: "cat rows (Tensor [1, 1] [0]) = Inr c0"
    using r
    by (auto simp: forgy_initialization_nnz_def Let_def bind_eq_Inr zeros_1_1 m_def
        nonzero_view_flat(1) slice0_perm [OF K])
  have ssel: "shape sel = [m, 1]"
    using index_shape(1) [OF sel] by (simp add: nonzero_view_flat(1))
  have srows: "shape rows = (if m = 1 then [1] else [m, 1])"
    using index_shape(1) [OF rows] by (simp add: squeeze_def ssel X)
  have lrows: "length (data rows) = prod_list (shape rows)"
    by (rule index_shape(2) [OF rows])
  have m1: "m \<noteq> 1"
    using c srows by (auto simp: cat_def)
  then have c0: "c0 = Tensor [Suc m, 1] (data rows @ [0])"
    using c srows by (auto simp: cat_def split: if_splits)
  have "length (data rows) = m"
    using lrows srows m1 by simp
  then have "get c0 [m, 0] = 0"
    by (simp add: c0 get_def nth_append)
  then show "shape c0 = [Suc (min (K - 1) (nnz_count Xp)), 1]"
    and "get c0 [min (K - 1) (nnz_count Xp), 0] = 0"
    and "min (K - 1) (nnz_count Xp) \<noteq> 1"
    using c0 m1 by (simp_all add: m_def)
qed

subsection \<open>The loop with a pinned center\<close>

lemma lloyd_loop_choice:
  assumes loop: "lloyd_loop (lloyd_step X store) tol n s0 = Inr s"
    and s0: "choice_cluster s0 = None"
  shows "choice_cluster s = None
     \<or> (\<exists>cold cc. centers_old s = Some cold \<and> choice_cluster s = Some cc
          \<and> choose_centers X cold = Inr cc)"
proof -
  define P where "P = (\<lambda>s :: kstate. choice_cluster s = None
     \<or> (\<exists>cold cc. centers_old s = Some cold \<and> choice_cluster s = Some cc
          \<and> choose_centers X cold = Inr cc))"
  have P0: "P s0"
    by (simp add: P_def s0)
  have step: "P s2" if st: "lloyd_step X store s1 = Inr (s2, sh)" for s1 s2 sh
    using lloyd_step_choice [OF st] by (auto simp: P_def)
  have "P s"
    by (rule lloyd_loop_induct [where P = P, OF P0 _ loop]) (rule step)
  then show ?thesis
    by (simp add: P_def)
qed

lemma store_first_col:
  assumes old: "shape old = [Suc K, 1]" and new: "shape new = [Suc K, 1]"
  shows "\<exists>c'. store_first K old new = Inr c' \<and> shape c' = [Suc K, 1]
     \<and> get c' [K, 0] = get old [K, 0]"
proof -
  have b: "slice_bounds (Suc K) 0 (int K) = (0, K)"
    by (simp add: slice_bounds_def)
  let ?v = "Tensor [K, 1] (take K (data new))"
  define c' where "c' = build [Suc K, 1]
      (\<lambda>idx. if 0 \<le> hd idx \<and> hd idx < K then get ?v (bidx (shape ?v) ((hd idx - 0) # tl idx))
             else get old idx)"
  have s: "slice0 0 (int K) new = Inr ?v"
    by (simp add: slice0_def new b)
  have p: "slice0_put 0 (int K) old ?v = Inr c'"
    using broadcast_shapes_same [of "[K, 1]"]
    by (simp add: slice0_put_def old b c'_def cong: if_cong)
  have "store_first K old new = Inr c'"
    unfolding store_first_def s bind.simps by (rule p)
  moreover have "shape c' = [Suc K, 1]"
    by (simp add: c'_def)
  moreover have "get c' [K, 0] = get old [K, 0]"
    unfolding c'_def by (subst get_build_2) simp_all
  ultimately show ?thesis
    by blast
qed

lemma lloyd_step_first_inv:
  assumes X: "shape X = [N, 1]" and N: "N \<noteq> 1"
    and oh: "shape (one_hot s) = [N, Suc K]" "length (data (one_hot s)) = N * Suc K"
    and C: "shape (centers s) = [Suc K, 1]"
    and r: "lloyd_step X (store_first K) s = Inr (s', sh)"
  shows "shape (centers s') = [Suc K, 1] \<and> shape (one_hot s') = [N, Suc K]
     \<and> length (data (one_hot s')) = N * Suc K
     \<and> get (centers s') [K, 0] = get (centers s) [K, 0]"
proof -
  obtain cc where cc: "choose_centers X (centers s) = Inr cc"
    using lloyd_step_choice [OF r] by blast
  have Kc2: "2 \<le> Suc K"
    using choose_centers_col_inv [OF X cc] C by simp
  let ?new = "Tensor [Suc K, 1] (data (build [Suc K]
                (\<lambda>idx. col_center X (col_assign X (centers s)) N (hd idx))))"
  let ?oh = "build [N, Suc K]
                (\<lambda>idx. if col_assign X (centers s) (hd idx) = idx ! 1 then 1 else (0::real))"
  note m = m_step_col [OF X C oh N Kc2 order_refl]
  obtain c' where c': "store_first K (centers s) ?new = Inr c'" "shape c' = [Suc K, 1]"
      "get c' [K, 0] = get (centers s) [K, 0]"
    using store_first_col [OF C, of ?new] by auto
  have st: "lloyd_step X (store_first K) s =
     bind (center_shift c' (centers s)) (\<lambda>shift.
       Inr (\<lparr>choice_cluster = Some (build [N] (\<lambda>idx. col_assign X (centers s) (hd idx))),
              centers = c', centers_old = Some (centers s), one_hot = ?oh\<rparr>, shift))"
    by (simp only: lloyd_step_def m bind.simps prod.case c'(1))
  have "centers s' = c'" and "one_hot s' = ?oh"
    using r unfolding st by (auto simp: bind_eq_Inr)
  then show ?thesis
    using c'(2,3) by simp
qed

lemma zeros_2_Suc: "zeros [int N, int K + 1] = Inr (Tensor [N, Suc K] (replicate (N * Suc K) 0))"
  by (simp add: zeros_def nat_add_distrib)

text \<open>
  What \<open>lloyd_nnz_fixed_0_center\<close> returns when there are at least \<open>K\<close> eligible rows:
  its initialisation gave \<open>K + 1\<close> centers, the last of them the zero row, and the last
  center it returns is the one of the initialisation.
\<close>

lemma fixed_center_run:
  assumes r: "lloyd_nnz_fixed_0_center X Xp K tol max_iter perm = Inr (a, c)"
    and X: "shape X = [N, 1]" and KM: "K \<le> nnz_count Xp"
  shows "\<exists>c0. forgy_initialization_nnz X Xp (K + 1) perm = Inr c0 \<and> shape c0 = [Suc K, 1]
     \<and> get c0 [K, 0] = 0 \<and> shape c = [Suc K, 1] \<and> get c [K, 0] = get c0 [K, 0]"
proof -
  obtain c0 s where c0: "forgy_initialization_nnz X Xp (K + 1) perm = Inr c0"
    and loop: "lloyd_loop (lloyd_step X (store_first K)) tol max_iter
        (init_state c0 (Tensor [N, Suc K] (replicate (N * Suc K) 0))) = Inr s"
    and s: "choice_cluster s = Some a" "centers s = c"
    using r
    by (auto simp: lloyd_nnz_fixed_0_center_def bind_eq_Inr X zeros_2_Suc return_result_def
        split: option.splits)
  have m: "min (K + 1 - 1) (nnz_count Xp) = K"
    using KM by simp
  have sc0: "shape c0 = [Suc K, 1]" and z: "get c0 [K, 0] = 0"
    using forgy_nnz_result(1,2) [OF c0 X] unfolding m by simp_all
  obtain cold where "choose_centers X cold = Inr a"
    using lloyd_loop_choice [OF loop] s(1) by (auto simp: init_state_def)
  then have N: "N \<noteq> 1"
    using choose_centers_col_inv [OF X] by blast
  define P where "P = (\<lambda>s :: kstate. shape (centers s) = [Suc K, 1]
     \<and> shape (one_hot s) = [N, Suc K] \<and> length (data (one_hot s)) = N * Suc K
     \<and> get (centers s) [K, 0] = get c0 [K, 0])"
  have P0: "P (init_state c0 (Tensor [N, Suc K] (replicate (N * Suc K) 0)))"
    by (simp add: P_def init_state_def sc0)
  have step: "P s2" if p: "P s1" and st: "lloyd_step X (store_first K) s1 = Inr (s2, sh)"
    for s1 s2 sh
  proof -
    have s1: "shape (one_hot s1) = [N, Suc K]" "length (data (one_hot s1)) = N * Suc K"
        "shape (centers s1) = [Suc K, 1]" "get (centers s1) [K, 0] = get c0 [K, 0]"
      using p by (simp_all add: P_def)
    show ?thesis
      using lloyd_step_first_inv [OF X N s1(1,2,3) st] s1(4) by (simp add: P_def)
  qed
  have "P s"
    by (rule lloyd_loop_induct [where P = P, OF P0 _ loop]) (rule step)
  then show ?thesis
    using c0 sc0 z s(2) by (auto simp: P_def)
qed

lemma lloyd_loop_two:
  "step s = Inr (s1, sh1) \<Longrightarrow> \<not> sh1 ^ 2 < tol \<Longrightarrow> step s1 = Inr (s2, sh2) \<Longrightarrow> sh2 ^ 2 < tol
     \<Longrightarrow> lloyd_loop step tol 2 s = Inr s2"
  by (simp add: numeral_2_eq_2)

subsection \<open>Fewer candidates than centers\<close>




subsection \<open>The loop on the eligible rows\<close>

lemma lloyd_loop_first_choice:
  assumes "lloyd_loop (lloyd_step X store) tol n s0 = Inr s"
    and "choice_cluster s0 = None" and "choice_cluster s = Some a"
  shows "\<exists>cc. choose_centers X (centers s0) = Inr cc"
proof (cases n)
  case 0
  then show ?thesis using assms by simp
next
  case (Suc k)
  then obtain s1 sh where "lloyd_step X store s0 = Inr (s1, sh)"
    using assms(1) by (cases "lloyd_step X store s0") auto
  then show ?thesis
    using lloyd_step_choice by blast
qed

lemma zeros_2_pred:
  "1 \<le> K \<Longrightarrow> zeros [int M, int K - 1] = Inr (Tensor [M, K - 1] (replicate (M * (K - 1)) 0))"
  by (simp add: zeros_def nat_diff_distrib)

lemma zeros_2_pred_fails: "K = 0 \<Longrightarrow> zeros [int M, int K - 1] = Inl RuntimeError"
  by (simp add: zeros_def)

lemma forgy_fixed_shape:
  assumes r: "forgy_initialization_fixed_nnz X Xp K perm = Inr c0" and X: "shape X = [N, 1]"
    and K: "1 \<le> K"
  shows "shape c0 = (if min (K - 1) (nnz_count Xp) = 1 then [1]
                     else [min (K - 1) (nnz_count Xp), 1])"
proof -
  define m where "m = min (K - 1) (nnz_count Xp)"
  obtain sel where sel: "index (nonzero (view_flat Xp)) (Tensor [m] (take m perm)) = Inr sel"
    and rows: "index X (squeeze sel) = Inr c0"
    using r
    by (auto simp: forgy_initialization_fixed_nnz_def Let_def bind_eq_Inr m_def
        nonzero_view_flat(1) slice0_perm [OF K])
  have ssel: "shape sel = [m, 1]"
    using index_shape(1) [OF sel] by (simp add: nonzero_view_flat(1))
  show ?thesis
    using index_shape(1) [OF rows] by (simp add: squeeze_def ssel X m_def)
qed

lemma col_assign_first:
  assumes X: "shape X = [N, 1]" and C: "shape C = [K, 1]" and k: "k < col_assign X C i"
  shows "sqdist X i C (col_assign X C i) < sqdist X i C k"
proof -
  let ?ds = "map (\<lambda>k. (get X [i, 0] - get C [k, 0]) ^ 2) [0..<K]"
  have a: "col_assign X C i = argmin_list ?ds"
    by (simp add: col_assign_def C)
  have ne: "?ds \<noteq> []"
  proof
    assume "?ds = []"
    then have "argmin_list ?ds = 0"
      by (simp add: argmin_list_def)
    then show False
      using k a by simp
  qed
  have lt: "argmin_list ?ds < K"
    using argmin_list_spec(1) [OF ne] by simp
  then have kK: "k < K"
    using k a by simp
  have "?ds ! argmin_list ?ds = sqdist X i C (col_assign X C i)"
    using lt by (simp add: a sqdist_col [OF X])
  moreover have "?ds ! k = sqdist X i C k"
    using kK by (simp add: sqdist_col [OF X])
  moreover have "?ds ! argmin_list ?ds < ?ds ! k"
    using argmin_list_spec(3) [OF ne, of k] k a by simp
  ultimately show ?thesis by simp
qed

lemma lloyd_step_all_centers:
  assumes X: "shape X = [N, 1]" and N: "N \<noteq> 1"
    and oh: "shape (one_hot s) = [N, K]" "length (data (one_hot s)) = N * K"
    and C: "shape (centers s) = [Kc, 1]" and Kc: "Kc \<le> K"
    and r: "lloyd_step X store_all s = Inr (s', sh)"
  shows "centers s' = Tensor [K, 1] (data (build [K]
            (\<lambda>idx. col_center X (col_assign X (centers s)) N (hd idx))))"
proof -
  have inv: "Kc = K \<and> 2 \<le> K"
    using lloyd_step_all_inv [OF X N oh C Kc r] by simp
  then have cs: "col_state N K s" and K2: "2 \<le> K"
    using C oh by (simp_all add: col_state_def)
  show ?thesis
    using r unfolding lloyd_step_all_col [OF X cs N K2] by auto
qed

text \<open>
  The centers of \<open>lloyd\<close> on column data whenever the loop is left after an iteration:
  they are computed from the assignment to the centers kept in \<open>centers_old\<close>.
\<close>

lemma lloyd_loop_all_centers:
  assumes loop: "lloyd_loop (lloyd_step X store_all) tol n s0 = Inr s"
    and X: "shape X = [N, 1]" and N: "N \<noteq> 1"
    and s0: "shape (one_hot s0) = [N, K]" "length (data (one_hot s0)) = N * K"
      "shape (centers s0) = [Kc, 1]" "Kc \<le> K" "choice_cluster s0 = None"
  shows "choice_cluster s = None
     \<or> (\<exists>cold. centers_old s = Some cold
          \<and> centers s = Tensor [K, 1] (data (build [K]
                (\<lambda>idx. col_center X (col_assign X cold) N (hd idx)))))"
proof -
  define P where "P = (\<lambda>s :: kstate. shape (one_hot s) = [N, K] \<and> length (data (one_hot s)) = N * K
     \<and> (\<exists>Kc. shape (centers s) = [Kc, 1] \<and> Kc \<le> K)
     \<and> (choice_cluster s = None
        \<or> (\<exists>cold. centers_old s = Some cold
          \<and> centers s = Tensor [K, 1] (data (build [K]
                (\<lambda>idx. col_center X (col_assign X cold) N (hd idx)))))))"
  have P0: "P s0"
    using s0 by (simp add: P_def)
  have step: "P s2" if p: "P s1" and st: "lloyd_step X store_all s1 = Inr (s2, sh)" for s1 s2 sh
  proof -
    obtain Kc where s1: "shape (one_hot s1) = [N, K]" "length (data (one_hot s1)) = N * K"
        "shape (centers s1) = [Kc, 1]" "Kc \<le> K"
      using p by (auto simp: P_def)
    have inv: "Kc = K \<and> 2 \<le> K \<and> col_state N K s2
       \<and> choice_cluster s2 = Some (build [N] (\<lambda>idx. col_assign X (centers s1) (hd idx)))
       \<and> centers_old s2 = Some (centers s1)"
      by (rule lloyd_step_all_inv [OF X N s1 st])
    moreover note lloyd_step_all_centers [OF X N s1 st]
    ultimately show ?thesis
      by (auto simp: P_def col_state_def)
  qed
  have "P s"
    by (rule lloyd_loop_induct [where P = P, OF P0 _ loop]) (rule step)
  then show ?thesis
    by (simp add: P_def)
qed

lemma prod_list_filter_ones: "prod_list (filter (\<lambda>n. n \<noteq> 1) ns) = prod_list ns"
  for ns :: "nat list"
  by (induction ns) simp_all

lemma squeeze_rank_1:
  assumes "filter (\<lambda>n. n \<noteq> 1) (shape Xp) = [P]"
  shows "squeeze Xp = view_flat Xp"
  using prod_list_filter_ones [of "shape Xp"] assms by (simp add: squeeze_def view_flat_def)

lemma choose_centers_shapes:
  assumes "choose_centers X C = Inr cc"
  shows "length (shape X) = 2" and "length (shape C) = 2" and "shape X ! 1 = shape C ! 1"
  using assms by (auto simp: choose_centers_def split: if_splits)

lemma shape_nonzero: "shape (nonzero t) = [hd (shape (nonzero t)), length (shape t)]"
  by (simp add: nonzero_def Let_def)

text \<open>
  \<open>lloyd_fixed_nnz\<close> leaves its loop after an iteration only if \<open>X\<close> is a column and \<open>Xp\<close>
  has exactly one dimension that is not 1: otherwise an assertion of \<open>choose_centers\<close>
  fails on \<open>Xnnz\<close> or on the initial centers.
\<close>

lemma lloyd_fixed_nnz_shapes:
  assumes r: "lloyd_fixed_nnz_run X Xp K tol max_iter perm = Inr s"
    and s: "choice_cluster s = Some a"
  shows "\<exists>N P. shape X = [N, 1] \<and> filter (\<lambda>n. n \<noteq> 1) (shape Xp) = [P]"
proof -
  let ?nz = "nonzero (squeeze Xp)"
  obtain c0 oh rows where c0: "forgy_initialization_fixed_nnz X Xp K perm = Inr c0"
    and oh: "zeros [int (hd (shape ?nz)), int K - 1] = Inr oh"
    and rows: "index X ?nz = Inr rows"
    and loop: "lloyd_loop (lloyd_step (squeeze_last rows) store_all) tol max_iter
        (init_state c0 oh) = Inr s"
    using r by (auto simp: lloyd_fixed_nnz_run_def Let_def bind_eq_Inr)
  have K: "1 \<le> K"
    using oh zeros_2_pred_fails [of K "hd (shape ?nz)"] by (cases "K = 0") auto
  have s0: "choice_cluster (init_state c0 oh) = None" "centers (init_state c0 oh) = c0"
    by (simp_all add: init_state_def)
  obtain cc where cc: "choose_centers (squeeze_last rows) c0 = Inr cc"
    using lloyd_loop_first_choice [OF loop s0(1) s] s0(2) by auto
  note sh = choose_centers_shapes [OF cc]
  define m where "m = min (K - 1) (nnz_count Xp)"
  obtain sel where sel: "index (nonzero (view_flat Xp)) (Tensor [m] (take m perm)) = Inr sel"
    and crows: "index X (squeeze sel) = Inr c0"
    using c0
    by (auto simp: forgy_initialization_fixed_nnz_def Let_def bind_eq_Inr m_def
        nonzero_view_flat(1) slice0_perm [OF K])
  have ssel: "shape sel = [m, 1]"
    using index_shape(1) [OF sel] by (simp add: nonzero_view_flat(1))
  obtain N tlX where X: "shape X = N # tlX"
    using rows by (cases "shape X") (auto simp: index_def)
  have c0s: "shape c0 = (if m = 1 then [] else [m]) @ tlX"
    using index_shape(1) [OF crows] by (simp add: squeeze_def ssel X)
  define r where "r = length (filter (\<lambda>n. n \<noteq> 1) (shape Xp))"
  have rs: "shape rows = [hd (shape ?nz), r] @ tlX"
    using index_shape(1) [OF rows] shape_nonzero [of "squeeze Xp"]
    by (simp add: X squeeze_def r_def)
  have "length tlX = 1 \<or> length tlX = 2"
    using sh(2) c0s by (auto split: if_splits)
  then consider d where "tlX = [d]" | d1 d2 where "tlX = [d1, d2]"
    by (cases tlX; cases "tl tlX") auto
  then have "tlX = [1] \<and> r = 1"
  proof cases
    case 1
    then show ?thesis
      using sh rs c0s by (auto simp: squeeze_last_def split: if_splits)
  next
    case 2
    then show ?thesis
      using sh(1) rs by (auto simp: squeeze_last_def split: if_splits)
  qed
  moreover obtain P where "filter (\<lambda>n. n \<noteq> 1) (shape Xp) = [P]" if "r = 1"
    unfolding r_def by (cases "filter (\<lambda>n. n \<noteq> 1) (shape Xp)") auto
  ultimately show ?thesis
    using X by auto
qed

text \<open>The rows of a column \<open>X\<close> at the eligible positions: \<open>X[nnz_idx].squeeze(-1)\<close>. The
  indexing raises unless every eligible position is a row of \<open>X\<close>.\<close>

lemma eligible_rows:
  assumes X: "shape X = [N, 1]"
    and i: "index X (Tensor [nnz_count Xp, 1] (eligible Xp)) = Inr rows"
  shows "shape (squeeze_last rows) = [nnz_count Xp, 1]"
    and "\<forall>j<nnz_count Xp. get (squeeze_last rows) [j, 0] = get X [eligible Xp ! j, 0]"
    and "list_all (\<lambda>i. i < N) (eligible Xp)"
proof -
  let ?M = "nnz_count Xp"
  let ?ix = "Tensor [?M, 1] (eligible Xp)"
  have b: "list_ex (\<lambda>i. N \<le> i) (eligible Xp) = False"
    using i by (auto simp: index_def X split: if_splits)
  then show "list_all (\<lambda>i. i < N) (eligible Xp)"
    by (auto simp: list_ex_iff list_all_iff)
  have rows: "rows = build [?M, 1, 1]
      (\<lambda>idx. get X (get ?ix (take (length (shape ?ix)) idx) # drop (length (shape ?ix)) idx))"
    using i by (simp add: index_def X b)
  have sq: "squeeze_last rows = Tensor [?M, 1] (data rows)"
    by (simp add: squeeze_last_def rows)
  then show "shape (squeeze_last rows) = [?M, 1]"
    by simp
  have "get (squeeze_last rows) [j, 0] = get X [eligible Xp ! j, 0]" if j: "j < ?M" for j
  proof -
    have "get (Tensor [?M, 1] (data rows)) [j, 0] = get rows [j, 0, 0]"
      by (rule get_reshape) (simp add: rows)
    also have "\<dots> = get X [get ?ix [j, 0], 0]"
      unfolding rows using j by (subst get_build) simp_all
    also have "get ?ix [j, 0] = eligible Xp ! j"
      by (simp add: get_def)
    finally show ?thesis
      by (simp add: sq)
  qed
  then show "\<forall>j<?M. get (squeeze_last rows) [j, 0] = get X [eligible Xp ! j, 0]"
    by simp
qed

text \<open>
  The variables of \<open>lloyd_fixed_nnz\<close> when it returns: \<open>X\<close> is a column, \<open>nnz_idx\<close> lists
  the eligible positions, the assignment is that of the eligible rows, in their order, to the
  \<open>K - 1\<close> centers that were current before the last update, and the centers are computed
  from that assignment.
\<close>

lemma lloyd_fixed_nnz_final:
  assumes r: "lloyd_fixed_nnz_run X Xp K tol max_iter perm = Inr s"
    and s: "choice_cluster s = Some a"
  shows "\<exists>N Xn cold. shape X = [N, 1]
     \<and> nonzero (squeeze Xp) = Tensor [nnz_count Xp, 1] (eligible Xp)
     \<and> list_all (\<lambda>i. i < N) (eligible Xp)
     \<and> centers_old s = Some cold \<and> shape Xn = [nnz_count Xp, 1]
     \<and> shape cold = [K - 1, 1] \<and> 2 \<le> K - 1
     \<and> (\<forall>j<nnz_count Xp. get Xn [j, 0] = get X [eligible Xp ! j, 0])
     \<and> a = build [nnz_count Xp] (\<lambda>idx. col_assign Xn cold (hd idx))
     \<and> centers s = Tensor [K - 1, 1] (data (build [K - 1]
           (\<lambda>idx. col_center Xn (col_assign Xn cold) (nnz_count Xp) (hd idx))))"
proof -
  let ?M = "nnz_count Xp"
  obtain N P where X: "shape X = [N, 1]" and P: "filter (\<lambda>n. n \<noteq> 1) (shape Xp) = [P]"
    using lloyd_fixed_nnz_shapes [OF r s] by blast
  have nn: "nonzero (squeeze Xp) = Tensor [?M, 1] (eligible Xp)"
    using nonzero_view_flat(1) [of Xp] squeeze_rank_1 [OF P] by simp
  obtain c0 oh rows where c0: "forgy_initialization_fixed_nnz X Xp K perm = Inr c0"
    and oh: "zeros [int ?M, int K - 1] = Inr oh"
    and rows: "index X (Tensor [?M, 1] (eligible Xp)) = Inr rows"
    and loop: "lloyd_loop (lloyd_step (squeeze_last rows) store_all) tol max_iter
        (init_state c0 oh) = Inr s"
    using r by (auto simp: lloyd_fixed_nnz_run_def Let_def nn bind_eq_Inr)
  have K: "1 \<le> K"
    using oh zeros_2_pred_fails [of K ?M] by (cases "K = 0") auto
  have oh': "oh = Tensor [?M, K - 1] (replicate (?M * (K - 1)) 0)"
    using oh zeros_2_pred [OF K, of ?M] by simp
  define Xn where "Xn = squeeze_last rows"
  have Xn: "shape Xn = [?M, 1]" "\<forall>j<?M. get Xn [j, 0] = get X [eligible Xp ! j, 0]"
    and el: "list_all (\<lambda>i. i < N) (eligible Xp)"
    using eligible_rows [OF X rows] by (simp_all add: Xn_def)
  have s0: "choice_cluster (init_state c0 oh) = None" "centers (init_state c0 oh) = c0"
    by (simp_all add: init_state_def)
  obtain cc where "choose_centers Xn c0 = Inr cc"
    using lloyd_loop_first_choice [OF loop s0(1) s] s0(2) by (auto simp: Xn_def)
  then obtain Kc where Kc: "shape c0 = [Kc, 1]" "2 \<le> Kc" and M1: "?M \<noteq> 1"
    using choose_centers_col_inv [OF Xn(1)] by blast
  have le: "Kc \<le> K - 1"
    using forgy_fixed_shape [OF c0 X K] Kc(1) by (auto split: if_splits)
  have loop': "lloyd_loop (lloyd_step Xn store_all) tol max_iter (init_state c0 oh) = Inr s"
    using loop by (simp add: Xn_def)
  have i1: "shape (one_hot (init_state c0 oh)) = [?M, K - 1]"
    and i2: "length (data (one_hot (init_state c0 oh))) = ?M * (K - 1)"
    by (simp_all add: init_state_def oh')
  have i3: "shape (centers (init_state c0 oh)) = [Kc, 1]"
    using Kc(1) by (simp add: init_state_def)
  have "choice_cluster s = None
     \<or> (\<exists>cold. centers_old s = Some cold \<and> shape cold = [K - 1, 1] \<and> 2 \<le> K - 1
          \<and> col_state ?M (K - 1) s
          \<and> choice_cluster s = Some (build [?M] (\<lambda>idx. col_assign Xn cold (hd idx))))"
    by (rule lloyd_loop_all_final [OF loop' Xn(1) M1 i1 i2 i3 le s0(1)])
  moreover have "choice_cluster s = None
     \<or> (\<exists>cold. centers_old s = Some cold
          \<and> centers s = Tensor [K - 1, 1] (data (build [K - 1]
                (\<lambda>idx. col_center Xn (col_assign Xn cold) ?M (hd idx)))))"
    by (rule lloyd_loop_all_centers [OF loop' Xn(1) M1 i1 i2 i3 le s0(1)])
  ultimately show ?thesis
    using s Xn X nn el by auto
qed

lemma mean_of_rows:
  assumes "\<forall>j\<in>set ps. get Xn [j, 0] = get X [f j, 0]"
  shows "mean_of Xn ps = mean_of X (map f ps)"
proof -
  have "map (\<lambda>i. get Xn [i, 0]) ps = map (\<lambda>i. get X [i, 0]) (map f ps)"
    using assms by simp
  then show ?thesis
    unfolding mean_of_def by (simp only: length_map)
qed

lemma return_result_Inr:
  "return_result s = Inr (a, c) \<longleftrightarrow> choice_cluster s = Some a \<and> centers s = c"
  by (auto simp: return_result_def split: option.splits)



section \<open>The claims\<close>

subsection \<open>C2: the assignment of \<open>choose_centers\<close>\<close>

text \<open>
  C2 (the code departs from it). The claim: for every \<open>N \<times> d\<close> data matrix and every
  \<open>K \<times> d\<close> center matrix, \<open>choose_centers\<close> returns a vector of length \<open>N\<close> with entries
  below \<open>K\<close>, the index of the nearest center. With two features the function returns a
  matrix instead: for the rows \<open>(5, 0)\<close>, \<open>(0, 0)\<close> and the centers \<open>(0, 0)\<close>, \<open>(5, 0)\<close> the
  nearest centers are 1 and 0, and the code returns the \<open>2 \<times> 2\<close> matrix of the feature
  (not the center) with the least squared difference, for each point and center.
\<close>

theorem choose_centers_two_features:
  "choose_centers (Tensor [2, 2] [5, 0, 0, 0]) (Tensor [2, 2] [0, 0, 5, 0])
     = Inr (Tensor [2, 2] [1, 0, 0, 1])"
  by code_simp

subsection \<open>C4: no iteration\<close>

lemma forgy_two_rows:
  "forgy_initialization (Tensor [2, 1] [1, 2]) 2 [0, 1] = Inr (Tensor [2, 1] [1, 2])"
  by code_simp

text \<open>
  C4 (the code departs from it). The claim: \<open>lloyd\<close> with \<open>max_iter = 0\<close> returns the
  initialisation and raises nothing. The loop body never runs, \<open>choice_cluster\<close> is never
  bound, and the \<open>return\<close> raises.
\<close>

theorem lloyd_max_iter_0:
  "lloyd (Tensor [2, 1] [1, 2]) 2 (1 / 10000) 0 [0, 1] = Inl UnboundLocalError"
  using forgy_two_rows
  by (simp add: lloyd_def lloyd_run_def zeros_def return_result_def init_state_def)

subsection \<open>C1: a cluster without points\<close>

text \<open>
  A run on the three points 1, 1, 3 with two clusters, whose permutation draws the first
  two points as centers: both centers are 1, every point goes to cluster 0 (the first
  minimum), and cluster 1 is empty.
\<close>

lemma m_step_three_points:
  "m_step (Tensor [3, 1] [1, 1, 3])
      (init_state (Tensor [2, 1] [1, 1]) (Tensor [3, 2] [0, 0, 0, 0, 0, 0]))
     = Inr (Tensor [3] [0, 0, 0], Tensor [3, 2] [1, 0, 1, 0, 1, 0], Tensor [2, 1] [5 / 3, 0])"
  by code_simp

lemma forgy_three_points:
  "forgy_initialization (Tensor [3, 1] [1, 1, 3]) 2 [0, 1, 2] = Inr (Tensor [2, 1] [1, 1])"
  by code_simp

lemma lloyd_step_three_points:
  "lloyd_step (Tensor [3, 1] [1, 1, 3]) store_all
      (init_state (Tensor [2, 1] [1, 1]) (Tensor [3, 2] [0, 0, 0, 0, 0, 0]))
     = Inr (\<lparr>choice_cluster = Some (Tensor [3] [0, 0, 0]), centers = Tensor [2, 1] [5 / 3, 0],
             centers_old = Some (Tensor [2, 1] [1, 1]),
             one_hot = Tensor [3, 2] [1, 0, 1, 0, 1, 0]\<rparr>,
           sum_list (map (\<lambda>k. \<bar>get (Tensor [2, 1] [5 / 3, 0]) [k, 0]
                                - get (Tensor [2, 1] [1, 1]) [k, 0]\<bar>) [0..<2]))"
proof -
  have cs: "center_shift (Tensor [2, 1] [5 / 3, 0]) (Tensor [2, 1] [1, 1])
     = Inr (sum_list (map (\<lambda>k. \<bar>get (Tensor [2, 1] [5 / 3, 0]) [k, 0]
                                - get (Tensor [2, 1] [1, 1]) [k, 0]\<bar>) [0..<2]))"
    by (rule center_shift_col) simp_all
  have c: "centers (init_state (Tensor [2, 1] [1, 1]) (Tensor [3, 2] [0, 0, 0, 0, 0, 0]))
      = Tensor [2, 1] [1, 1]"
    by (simp add: init_state_def)
  show ?thesis
    by (simp only: lloyd_step_def m_step_three_points bind.simps prod.case store_all_def c cs)
qed

lemma col_state_three_points:
  "col_state 3 2 (init_state (Tensor [2, 1] [1, 1]) (Tensor [3, 2] [0, 0, 0, 0, 0, 0]))"
  by (simp add: col_state_def init_state_def)

text \<open>
  C1 (refuted as stated). The claim: the center of a cluster that receives no point keeps
  its old value. In the run above cluster 1 receives no point, its center was 1 after the
  initialisation, and the iteration returns 0 for it.
\<close>

theorem lloyd_empty_cluster_counterexample:
  "forgy_initialization (Tensor [3, 1] [1, 1, 3]) 2 [0, 1, 2] = Inr (Tensor [2, 1] [1, 1])
   \<and> lloyd (Tensor [3, 1] [1, 1, 3]) 2 (1 / 10000) 1 [0, 1, 2]
       = Inr (Tensor [3] [0, 0, 0], Tensor [2, 1] [5 / 3, 0])"
proof -
  have z: "zeros [int 3, int 2] = Inr (Tensor [3, 2] [0, 0, 0, 0, 0, 0])"
    by (simp add: zeros_def numeral_eq_Suc)
  have "lloyd_run (Tensor [3, 1] [1, 1, 3]) 2 (1 / 10000) 1 [0, 1, 2]
      = Inr \<lparr>choice_cluster = Some (Tensor [3] [0, 0, 0]), centers = Tensor [2, 1] [5 / 3, 0],
             centers_old = Some (Tensor [2, 1] [1, 1]),
             one_hot = Tensor [3, 2] [1, 0, 1, 0, 1, 0]\<rparr>"
    unfolding lloyd_run_def forgy_three_points bind.simps tensor.sel list.case z
    by (rule lloyd_loop_one) (rule lloyd_step_three_points)
  then show ?thesis
    using forgy_three_points by (simp add: lloyd_def return_result_def)
qed

text \<open>
  C1 (as amended). One iteration of \<open>lloyd\<close> on \<open>N \<noteq> 1\<close> points of one feature and
  \<open>K \<ge> 2\<close> centers returns, and the new center of every cluster that received no point
  is 0, whatever its old value: the sum of no points, times the count 0 that the guard
  left in place of a reciprocal.
\<close>

theorem lloyd_step_empty_cluster_zero:
  assumes "shape X = [N, 1]" and "col_state N K s" and "N \<noteq> 1" and "2 \<le> K"
  shows "\<exists>s' shift a. lloyd_step X store_all s = Inr (s', shift) \<and> choice_cluster s' = Some a
     \<and> (\<forall>k<K. members a N k = [] \<longrightarrow> get (centers s') [k, 0] = 0)"
proof -
  define a where "a = col_assign X (centers s)"
  have "get (Tensor [K, 1] (data (build [K] (\<lambda>idx. col_center X a N (hd idx))))) [k, 0] = 0"
    if "k < K" "members (build [N] (\<lambda>idx. a (hd idx))) N k = []" for k
    using that get_col_build [of k K "\<lambda>idx. col_center X a N (hd idx)"]
    by (simp add: members_build col_center_empty)
  then show ?thesis
    unfolding lloyd_step_all_col [OF assms] a_def by simp
qed

theorem lloyd_step_empty_cluster_zero_witness:
  "shape (Tensor [3, 1] [1, 1, 3 :: real]) = [3, 1]
   \<and> col_state 3 2 (init_state (Tensor [2, 1] [1, 1]) (Tensor [3, 2] [0, 0, 0, 0, 0, 0]))
   \<and> members (Tensor [3] [0, 0, 0]) 3 1 = []
   \<and> (\<exists>s' shift. lloyd_step (Tensor [3, 1] [1, 1, 3]) store_all
          (init_state (Tensor [2, 1] [1, 1]) (Tensor [3, 2] [0, 0, 0, 0, 0, 0])) = Inr (s', shift)
        \<and> choice_cluster s' = Some (Tensor [3] [0, 0, 0])
        \<and> get (centers s') [1, 0] = 0)"
proof -
  have sh: "shape (Tensor [3, 1] [1, 1, 3 :: real]) = [3, 1]"
    by simp
  have mem: "members (Tensor [3] [0, 0, 0]) 3 1 = []"
    by code_simp
  obtain s' shift a where r:
    "lloyd_step (Tensor [3, 1] [1, 1, 3]) store_all
       (init_state (Tensor [2, 1] [1, 1]) (Tensor [3, 2] [0, 0, 0, 0, 0, 0])) = Inr (s', shift)"
    "choice_cluster s' = Some a"
    "\<forall>k<2. members a 3 k = [] \<longrightarrow> get (centers s') [k, 0] = 0"
    using lloyd_step_empty_cluster_zero [OF sh col_state_three_points] by auto
  have a: "a = Tensor [3] [0, 0, 0]"
    using r(1,2) unfolding lloyd_step_three_points by auto
  have "get (centers s') [1, 0] = 0"
    using r(3) mem unfolding a by simp
  then show ?thesis
    using sh col_state_three_points mem r(1,2) a by blast
qed

subsection \<open>C7: the mean of a cluster\<close>









subsection \<open>C8: the returned assignment and the returned centers\<close>

text \<open>A run of one iteration on the points 0, 1, 10, with the centers 0 and 1 drawn.\<close>

lemma forgy_far_point:
  "forgy_initialization (Tensor [3, 1] [0, 1, 10]) 2 [0, 1, 2] = Inr (Tensor [2, 1] [0, 1])"
  by code_simp

lemma m_step_far_point:
  "m_step (Tensor [3, 1] [0, 1, 10])
      (init_state (Tensor [2, 1] [0, 1]) (Tensor [3, 2] [0, 0, 0, 0, 0, 0]))
     = Inr (Tensor [3] [0, 1, 1], Tensor [3, 2] [1, 0, 0, 1, 0, 1], Tensor [2, 1] [0, 11 / 2])"
  by code_simp

lemma lloyd_run_far_point:
  "lloyd_run (Tensor [3, 1] [0, 1, 10]) 2 (1 / 10000) 1 [0, 1, 2]
     = Inr \<lparr>choice_cluster = Some (Tensor [3] [0, 1, 1]), centers = Tensor [2, 1] [0, 11 / 2],
            centers_old = Some (Tensor [2, 1] [0, 1]),
            one_hot = Tensor [3, 2] [1, 0, 0, 1, 0, 1]\<rparr>"
proof -
  have cs: "center_shift (Tensor [2, 1] [0, 11 / 2]) (Tensor [2, 1] [0, 1])
     = Inr (sum_list (map (\<lambda>k. \<bar>get (Tensor [2, 1] [0, 11 / 2]) [k, 0]
                                - get (Tensor [2, 1] [0, 1]) [k, 0]\<bar>) [0..<2]))"
    by (rule center_shift_col) simp_all
  have c: "centers (init_state (Tensor [2, 1] [0, 1]) (Tensor [3, 2] [0, 0, 0, 0, 0, 0]))
      = Tensor [2, 1] [0, 1]"
    by (simp add: init_state_def)
  have st: "lloyd_step (Tensor [3, 1] [0, 1, 10]) store_all
      (init_state (Tensor [2, 1] [0, 1]) (Tensor [3, 2] [0, 0, 0, 0, 0, 0]))
     = Inr (\<lparr>choice_cluster = Some (Tensor [3] [0, 1, 1]), centers = Tensor [2, 1] [0, 11 / 2],
             centers_old = Some (Tensor [2, 1] [0, 1]),
             one_hot = Tensor [3, 2] [1, 0, 0, 1, 0, 1]\<rparr>,
           sum_list (map (\<lambda>k. \<bar>get (Tensor [2, 1] [0, 11 / 2]) [k, 0]
                                - get (Tensor [2, 1] [0, 1]) [k, 0]\<bar>) [0..<2]))"
    by (simp only: lloyd_step_def m_step_far_point bind.simps prod.case store_all_def c cs)
  have z: "zeros [int 3, int 2] = Inr (Tensor [3, 2] [0, 0, 0, 0, 0, 0])"
    by (simp add: zeros_def numeral_eq_Suc)
  show ?thesis
    unfolding lloyd_run_def forgy_far_point bind.simps tensor.sel list.case z
    by (rule lloyd_loop_one) (rule st)
qed

lemma lloyd_far_point:
  "lloyd (Tensor [3, 1] [0, 1, 10]) 2 (1 / 10000) 1 [0, 1, 2]
     = Inr (Tensor [3] [0, 1, 1], Tensor [2, 1] [0, 11 / 2])"
  using lloyd_run_far_point by (simp add: lloyd_def return_result_def)

text \<open>
  C8 (refuted as stated). The claim: in the pair that \<open>lloyd\<close> returns, every point is
  assigned to the nearest of the returned centers. After one iteration on the points 0, 1,
  10 the point 1 is assigned to cluster 1, whose returned center is \<open>11 / 2\<close>, though the
  returned center 0 of cluster 0 is nearer.
\<close>

theorem lloyd_assignment_counterexample:
  "lloyd (Tensor [3, 1] [0, 1, 10]) 2 (1 / 10000) 1 [0, 1, 2]
     = Inr (Tensor [3] [0, 1, 1], Tensor [2, 1] [0, 11 / 2])
   \<and> get (Tensor [3] [0, 1, 1 :: nat]) [1] = 1
   \<and> sqdist (Tensor [3, 1] [0, 1, 10]) 1 (Tensor [2, 1] [0, 11 / 2]) 0
       < sqdist (Tensor [3, 1] [0, 1, 10]) 1 (Tensor [2, 1] [0, 11 / 2]) 1"
proof -
  have "get (Tensor [3] [0, 1, 1 :: nat]) [1] = 1"
    by code_simp
  moreover have "sqdist (Tensor [3, 1] [0, 1, 10]) 1 (Tensor [2, 1] [0, 11 / 2]) 0
       < sqdist (Tensor [3, 1] [0, 1, 10]) 1 (Tensor [2, 1] [0, 11 / 2]) 1"
    by code_simp
  ultimately show ?thesis
    using lloyd_far_point by simp
qed

text \<open>
  C8 (as amended). In the pair that \<open>lloyd\<close> returns on points of one feature, every
  point is assigned to the nearest of the centers that were current before the last
  update (\<open>centers_old\<close>): the assignment is computed first in an iteration, and the
  centers returned with it are the ones computed from it afterwards.
\<close>

theorem lloyd_assignment_nearest_old_centers:
  assumes "lloyd X K tol max_iter perm = Inr (a, c)" and "shape X = [N, 1]"
  shows "\<exists>s cold. lloyd_run X K tol max_iter perm = Inr s \<and> choice_cluster s = Some a
     \<and> centers s = c \<and> centers_old s = Some cold
     \<and> (\<forall>i<N. \<forall>k<K. sqdist X i cold (get a [i]) \<le> sqdist X i cold k)"
proof -
  obtain s where run: "lloyd_run X K tol max_iter perm = Inr s"
    and s: "choice_cluster s = Some a" "centers s = c"
    using assms(1)
    by (auto simp: lloyd_def bind_eq_Inr return_result_def split: option.splits)
  obtain cold where cold: "centers_old s = Some cold" "choose_centers X cold = Inr a"
    using lloyd_run_choice [OF run] s(1) by auto
  have N1: "N \<noteq> 1"
    using choose_centers_col_inv [OF assms(2) cold(2)] by blast
  have "sqdist X i cold (get a [i]) \<le> sqdist X i cold k" if "i < N" "k < K" for i k
  proof -
    obtain cold' where c': "centers_old s = Some cold'" "shape cold' = [K, 1]"
      "choice_cluster s = Some (build [N] (\<lambda>idx. col_assign X cold' (hd idx)))"
      using lloyd_run_final [OF run assms(2) N1] s(1) by auto
    have "cold' = cold" using c'(1) cold(1) by simp
    then have "get a [i] = col_assign X cold i"
      using c'(3) s(1) that(1) by (simp add: get_build_1)
    then show ?thesis
      using col_assign_nearest [OF assms(2) c'(2) that(2), of i] \<open>cold' = cold\<close> by simp
  qed
  then show ?thesis
    using run s cold(1) by blast
qed

theorem lloyd_assignment_nearest_old_centers_witness:
  "lloyd (Tensor [3, 1] [0, 1, 10]) 2 (1 / 10000) 1 [0, 1, 2]
     = Inr (Tensor [3] [0, 1, 1], Tensor [2, 1] [0, 11 / 2])
   \<and> shape (Tensor [3, 1] [0, 1, 10 :: real]) = [3, 1]
   \<and> sqdist (Tensor [3, 1] [0, 1, 10]) 1 (Tensor [2, 1] [0, 1]) (get (Tensor [3] [0, 1, 1]) [1])
       \<le> sqdist (Tensor [3, 1] [0, 1, 10]) 1 (Tensor [2, 1] [0, 1]) 0"
proof -
  have sh: "shape (Tensor [3, 1] [0, 1, 10 :: real]) = [3, 1]"
    by simp
  obtain s cold where r:
    "lloyd_run (Tensor [3, 1] [0, 1, 10]) 2 (1 / 10000) 1 [0, 1, 2] = Inr s"
    "centers_old s = Some cold"
    "\<forall>i<3. \<forall>k<2. sqdist (Tensor [3, 1] [0, 1, 10]) i cold (get (Tensor [3] [0, 1, 1]) [i])
        \<le> sqdist (Tensor [3, 1] [0, 1, 10]) i cold k"
    using lloyd_assignment_nearest_old_centers [OF lloyd_far_point sh] by blast
  have "cold = Tensor [2, 1] [0, 1]"
    using r(1,2) unfolding lloyd_run_far_point by auto
  then show ?thesis
    using r(3) lloyd_far_point sh by simp
qed

subsection \<open>C10: data with several features\<close>

text \<open>A run of one iteration on the points \<open>(0, 0)\<close> and \<open>(0, 5)\<close> with one cluster.\<close>

lemma forgy_two_features:
  "forgy_initialization (Tensor [2, 2] [0, 0, 0, 5]) 1 [0, 1] = Inr (Tensor [1, 2] [0, 0])"
  by code_simp

lemma m_step_two_features:
  "m_step (Tensor [2, 2] [0, 0, 0, 5]) (init_state (Tensor [1, 2] [0, 0]) (Tensor [2, 1] [0, 0]))
     = Inr (Tensor [2] [0, 0], Tensor [2, 1] [1, 1], Tensor [2, 1] [0, 5 / 2])"
  by code_simp

lemma center_shift_two_features:
  "\<exists>shift. center_shift (Tensor [2, 1] [0, 5 / 2]) (Tensor [1, 2] [0, 0]) = Inr shift"
proof -
  have b: "binop (-) (Tensor [2, 1] [0, 5 / 2 :: real]) (Tensor [1, 2] [0, 0])
      = Inr (Tensor [2, 2] [0, 0, 5 / 2, 5 / 2])"
    by code_simp
  have q: "sum_dim 1 (tmap (\<lambda>x. x ^ 2) (Tensor [2, 2] [0, 0, 5 / 2, 5 / 2]))
      = Inr (Tensor [2] [0, 25 / 2])"
    by code_simp
  show ?thesis
    unfolding center_shift_def b bind.simps q by (simp add: item_def sum_all_def)
qed

text \<open>
  C10 (refuted as stated). The claim: for every data matrix with \<open>d \<ge> 2\<close> features and
  every \<open>K \<noteq> d\<close>, the update step of \<open>lloyd\<close> fails. With \<open>d = 2\<close> and \<open>K = 1\<close> the run
  above returns: \<open>squeeze()\<close> leaves an \<open>N \<times> d\<close> matrix, \<open>argmin\<close> picks feature 0 for both
  points, the \<open>N \<times> 1\<close> one-hot matrix broadcasts against the data, and the centers come
  back with the shape \<open>d \<times> 1\<close>.
\<close>

theorem lloyd_two_features_counterexample:
  "lloyd (Tensor [2, 2] [0, 0, 0, 5]) 1 (1 / 10000) 1 [0, 1]
     = Inr (Tensor [2] [0, 0], Tensor [2, 1] [0, 5 / 2])"
proof -
  obtain shift where cs:
    "center_shift (Tensor [2, 1] [0, 5 / 2]) (Tensor [1, 2] [0, 0]) = Inr shift"
    using center_shift_two_features by blast
  have c: "centers (init_state (Tensor [1, 2] [0, 0]) (Tensor [2, 1] [0, 0])) = Tensor [1, 2] [0, 0]"
    by (simp add: init_state_def)
  have st: "lloyd_step (Tensor [2, 2] [0, 0, 0, 5]) store_all
      (init_state (Tensor [1, 2] [0, 0]) (Tensor [2, 1] [0, 0]))
     = Inr (\<lparr>choice_cluster = Some (Tensor [2] [0, 0]), centers = Tensor [2, 1] [0, 5 / 2],
             centers_old = Some (Tensor [1, 2] [0, 0]), one_hot = Tensor [2, 1] [1, 1]\<rparr>, shift)"
    by (simp only: lloyd_step_def m_step_two_features bind.simps prod.case store_all_def c cs)
  have z: "zeros [int 2, int 1] = Inr (Tensor [2, 1] [0, 0])"
    by (simp add: zeros_def numeral_eq_Suc)
  have "lloyd_run (Tensor [2, 2] [0, 0, 0, 5]) 1 (1 / 10000) 1 [0, 1]
      = Inr \<lparr>choice_cluster = Some (Tensor [2] [0, 0]), centers = Tensor [2, 1] [0, 5 / 2],
             centers_old = Some (Tensor [1, 2] [0, 0]), one_hot = Tensor [2, 1] [1, 1]\<rparr>"
    unfolding lloyd_run_def forgy_two_features bind.simps tensor.sel list.case z
    by (rule lloyd_loop_one) (rule st)
  then show ?thesis
    by (simp add: lloyd_def return_result_def)
qed

text \<open>
  C10 (as amended). For every data matrix of \<open>N \<ge> 2\<close> points with \<open>d \<ge> 2\<close> features and
  every \<open>K \<ge> 2\<close> (equal to \<open>d\<close> or not), \<open>choose_centers\<close> on the initial centers returns
  an \<open>N \<times> min(K, N)\<close> matrix (the features are never summed; the argmin runs over them),
  and \<open>lloyd\<close> with at least one iteration raises a \<open>RuntimeError\<close> in its first update
  step: \<open>scatter_\<close> refuses the index of rank 3, before the product of the data with the
  one-hot matrix is reached.
\<close>

theorem lloyd_several_features_fails:
  assumes "shape X = [N, d]" and "2 \<le> d" and "2 \<le> N" and "2 \<le> K" and "is_perm N perm"
  shows "(\<exists>c0 cc. forgy_initialization X K perm = Inr c0 \<and> choose_centers X c0 = Inr cc
            \<and> shape cc = [N, min K N])
     \<and> lloyd X K tol (Suc n) perm = Inl RuntimeError"
proof -
  obtain c0 where c0: "forgy_initialization X K perm = Inr c0" "shape c0 = [min K N, d]"
    using forgy_returns [OF assms(1,5)] by blast
  have Kc: "2 \<le> min K N" using assms(3,4) by simp
  obtain cc where cc: "choose_centers X c0 = Inr cc" "shape cc = [N, min K N]"
    using choose_centers_wide [OF assms(1) c0(2) assms(3,2) Kc] by blast
  have "m_step X (init_state c0 (Tensor [N, K] (replicate (N * K) 0))) = Inl RuntimeError"
    by (rule m_step_wide [OF assms(1) _ _ assms(3,2) Kc]) (simp_all add: init_state_def c0(2))
  then have "lloyd_step X store_all (init_state c0 (Tensor [N, K] (replicate (N * K) 0)))
      = Inl RuntimeError"
    by (simp add: lloyd_step_def)
  then have "lloyd_run X K tol (Suc n) perm = Inl RuntimeError"
    unfolding lloyd_run_def c0(1) bind.simps assms(1) list.case zeros_2
    by (rule lloyd_loop_step_fails)
  then show ?thesis
    using c0(1) cc by (simp add: lloyd_def)
qed

theorem lloyd_several_features_fails_witness:
  "shape (Tensor [2, 2] [5, 0, 0, 0 :: real]) = [2, 2] \<and> is_perm 2 [0, 1]
   \<and> lloyd (Tensor [2, 2] [5, 0, 0, 0]) 2 (1 / 10000) (Suc 0) [0, 1] = Inl RuntimeError"
proof -
  have sh: "shape (Tensor [2, 2] [5, 0, 0, 0 :: real]) = [2, 2]"
    by simp
  have p: "is_perm 2 [0, 1]"
    by code_simp
  show ?thesis
    using lloyd_several_features_fails [OF sh _ _ _ p, of 2 "1 / 10000" 0] sh p by simp
qed

subsection \<open>C3 and C5: the pinned center\<close>

text \<open>
  A run of \<open>lloyd_nnz_fixed_0_center\<close> with \<open>K = 2\<close> on the points 0.1, 2, 5, 7, of which
  the last three are eligible. The permutation draws the points 7 and 2; the first point
  goes to the third, pinned cluster. The second iteration changes nothing and leaves the
  loop.
\<close>

lemma forgy_nnz_four_points:
  "forgy_initialization_nnz (Tensor [4, 1] [1 / 10, 2, 5, 7]) (Tensor [4] [0, 1, 1, 1]) 3 [2, 0, 1]
     = Inr (Tensor [3, 1] [7, 2, 0])"
  by code_simp

lemma nnz_count_four_points: "nnz_count (Tensor [4] [0, 1, 1, 1]) = 3"
  by code_simp

lemma m_step_four_points_1:
  "m_step (Tensor [4, 1] [1 / 10, 2, 5, 7])
      (init_state (Tensor [3, 1] [7, 2, 0]) (Tensor [4, 3] [0, 0, 0, 0, 0, 0, 0, 0, 0, 0, 0, 0]))
     = Inr (Tensor [4] [2, 1, 0, 0], Tensor [4, 3] [0, 0, 1, 0, 1, 0, 1, 0, 0, 1, 0, 0],
            Tensor [3, 1] [6, 2, 1 / 10])"
  by code_simp

lemma m_step_four_points_2:
  "m_step (Tensor [4, 1] [1 / 10, 2, 5, 7])
      \<lparr>choice_cluster = Some (Tensor [4] [2, 1, 0, 0]), centers = Tensor [3, 1] [6, 2, 0],
        centers_old = Some (Tensor [3, 1] [7, 2, 0]),
        one_hot = Tensor [4, 3] [0, 0, 1, 0, 1, 0, 1, 0, 0, 1, 0, 0]\<rparr>
     = Inr (Tensor [4] [2, 1, 0, 0], Tensor [4, 3] [0, 0, 1, 0, 1, 0, 1, 0, 0, 1, 0, 0],
            Tensor [3, 1] [6, 2, 1 / 10])"
  by code_simp

lemma store_first_four_points_1:
  "store_first 2 (Tensor [3, 1] [7, 2, 0]) (Tensor [3, 1] [6, 2, 1 / 10])
     = Inr (Tensor [3, 1] [6, 2, 0])"
  by code_simp

lemma store_first_four_points_2:
  "store_first 2 (Tensor [3, 1] [6, 2, 0]) (Tensor [3, 1] [6, 2, 1 / 10])
     = Inr (Tensor [3, 1] [6, 2, 0])"
  by code_simp

lemma center_shift_four_points_1:
  "center_shift (Tensor [3, 1] [6, 2, 0]) (Tensor [3, 1] [7, 2, 0]) = Inr 1"
proof -
  have "sum_list (map (\<lambda>k. \<bar>get (Tensor [3, 1] [6, 2, 0 :: real]) [k, 0]
                                - get (Tensor [3, 1] [7, 2, 0]) [k, 0]\<bar>) [0..<3]) = 1"
    by code_simp
  then show ?thesis
    by (subst center_shift_col [where K = 3]) simp_all
qed

lemma center_shift_four_points_2:
  "center_shift (Tensor [3, 1] [6, 2, 0]) (Tensor [3, 1] [6, 2, 0]) = Inr 0"
proof -
  have "sum_list (map (\<lambda>k. \<bar>get (Tensor [3, 1] [6, 2, 0 :: real]) [k, 0]
                                - get (Tensor [3, 1] [6, 2, 0]) [k, 0]\<bar>) [0..<3]) = 0"
    by code_simp
  then show ?thesis
    by (subst center_shift_col [where K = 3]) simp_all
qed

lemma lloyd_fixed_four_points:
  "lloyd_nnz_fixed_0_center (Tensor [4, 1] [1 / 10, 2, 5, 7]) (Tensor [4] [0, 1, 1, 1]) 2
      (1 / 10000) 2 [2, 0, 1]
     = Inr (Tensor [4] [2, 1, 0, 0], Tensor [3, 1] [6, 2, 0])"
proof -
  let ?X = "Tensor [4, 1] [1 / 10, 2, 5, 7 :: real]"
  let ?s0 = "init_state (Tensor [3, 1] [7, 2, 0])
      (Tensor [4, 3] [0, 0, 0, 0, 0, 0, 0, 0, 0, 0, 0, 0])"
  let ?s1 = "\<lparr>choice_cluster = Some (Tensor [4] [2, 1, 0, 0]), centers = Tensor [3, 1] [6, 2, 0],
        centers_old = Some (Tensor [3, 1] [7, 2, 0]),
        one_hot = Tensor [4, 3] [0, 0, 1, 0, 1, 0, 1, 0, 0, 1, 0, 0]\<rparr>"
  let ?s2 = "\<lparr>choice_cluster = Some (Tensor [4] [2, 1, 0, 0]), centers = Tensor [3, 1] [6, 2, 0],
        centers_old = Some (Tensor [3, 1] [6, 2, 0]),
        one_hot = Tensor [4, 3] [0, 0, 1, 0, 1, 0, 1, 0, 0, 1, 0, 0]\<rparr>"
  have c0: "centers ?s0 = Tensor [3, 1] [7, 2, 0]"
    by (simp add: init_state_def)
  have c1: "centers ?s1 = Tensor [3, 1] [6, 2, 0]"
    by simp
  have st1: "lloyd_step ?X (store_first 2) ?s0 = Inr (?s1, 1)"
    by (simp only: lloyd_step_def m_step_four_points_1 bind.simps prod.case c0
          store_first_four_points_1 center_shift_four_points_1)
  have st2: "lloyd_step ?X (store_first 2) ?s1 = Inr (?s2, 0)"
    by (simp only: lloyd_step_def m_step_four_points_2 bind.simps prod.case c1
          store_first_four_points_2 center_shift_four_points_2)
  have loop: "lloyd_loop (lloyd_step ?X (store_first 2)) (1 / 10000) 2 ?s0 = Inr ?s2"
    by (rule lloyd_loop_two [OF st1 _ st2]) simp_all
  have z: "zeros [int 4, int 2 + 1] = Inr (Tensor [4, 3] [0, 0, 0, 0, 0, 0, 0, 0, 0, 0, 0, 0])"
    by (simp add: zeros_def numeral_eq_Suc)
  have f: "forgy_initialization_nnz ?X (Tensor [4] [0, 1, 1, 1]) (2 + 1) [2, 0, 1]
      = Inr (Tensor [3, 1] [7, 2, 0])"
    using forgy_nnz_four_points by simp
  show ?thesis
    unfolding lloyd_nnz_fixed_0_center_def f bind.simps tensor.sel list.case z loop
    by (simp add: return_result_def)
qed

text \<open>
  C3 (refuted as stated). The claim: the pinned last center of \<open>lloyd_nnz_fixed_0_center\<close>
  is a randomly drawn data row, not the zero vector. In the run above no data row is
  zero, and the pinned center is 0 after the initialisation and in the result.
\<close>

theorem fixed_center_counterexample:
  "forgy_initialization_nnz (Tensor [4, 1] [1 / 10, 2, 5, 7]) (Tensor [4] [0, 1, 1, 1]) 3 [2, 0, 1]
     = Inr (Tensor [3, 1] [7, 2, 0])
   \<and> lloyd_nnz_fixed_0_center (Tensor [4, 1] [1 / 10, 2, 5, 7]) (Tensor [4] [0, 1, 1, 1]) 2
        (1 / 10000) 2 [2, 0, 1]
     = Inr (Tensor [4] [2, 1, 0, 0], Tensor [3, 1] [6, 2, 0])
   \<and> get (Tensor [3, 1] [6, 2, 0 :: real]) [2, 0] = 0
   \<and> list_all (\<lambda>x. x \<noteq> 0) (data (Tensor [4, 1] [1 / 10, 2, 5, 7 :: real]))"
proof -
  have "get (Tensor [3, 1] [6, 2, 0 :: real]) [2, 0] = 0"
    by code_simp
  moreover have "list_all (\<lambda>x. x \<noteq> 0) (data (Tensor [4, 1] [1 / 10, 2, 5, 7 :: real]))"
    by simp
  ultimately show ?thesis
    using forgy_nnz_four_points lloyd_fixed_four_points by simp
qed

text \<open>
  C3 (as amended). Whenever \<open>lloyd_nnz_fixed_0_center\<close> returns on points of one feature
  with at least \<open>K\<close> eligible rows, it returns \<open>K + 1\<close> centers and the pinned last one is
  the zero vector: the row that \<open>forgy_initialization_nnz\<close> appends to the \<open>K\<close> drawn
  rows, as it does for the sibling \<open>lloyd_nnz\<close>.
\<close>

theorem fixed_center_is_zero_row:
  assumes "lloyd_nnz_fixed_0_center X Xp K tol max_iter perm = Inr (a, c)"
    and "shape X = [N, 1]" and "K \<le> nnz_count Xp"
  shows "shape c = [K + 1, 1] \<and> get c [K, 0] = 0"
  using fixed_center_run [OF assms] by auto

theorem fixed_center_is_zero_row_witness:
  "lloyd_nnz_fixed_0_center (Tensor [4, 1] [1 / 10, 2, 5, 7]) (Tensor [4] [0, 1, 1, 1]) 2
        (1 / 10000) 2 [2, 0, 1]
     = Inr (Tensor [4] [2, 1, 0, 0], Tensor [3, 1] [6, 2, 0])
   \<and> shape (Tensor [4, 1] [1 / 10, 2, 5, 7 :: real]) = [4, 1]
   \<and> 2 \<le> nnz_count (Tensor [4] [0, 1, 1, 1])
   \<and> shape (Tensor [3, 1] [6, 2, 0 :: real]) = [2 + 1, 1]
   \<and> get (Tensor [3, 1] [6, 2, 0 :: real]) [2, 0] = 0"
proof -
  have sh: "shape (Tensor [4, 1] [1 / 10, 2, 5, 7 :: real]) = [4, 1]"
    by simp
  have n: "2 \<le> nnz_count (Tensor [4] [0, 1, 1, 1])"
    by (simp add: nnz_count_four_points)
  show ?thesis
    using fixed_center_is_zero_row [OF lloyd_fixed_four_points sh n] lloyd_fixed_four_points sh n
    by simp
qed










subsection \<open>C6: fewer candidates than centers\<close>




subsection \<open>C9: the assignment of \<open>lloyd_fixed_nnz\<close>\<close>

text \<open>
  A run of \<open>lloyd_fixed_nnz\<close> with \<open>K = 3\<close> on the points 7, 0.1, 2, 5, of which the
  first, the third and the fourth are eligible: two centers, drawn as 7 and 2, and the
  three points 7, 2, 5.
\<close>

lemma forgy_fixed_four_points:
  "forgy_initialization_fixed_nnz (Tensor [4, 1] [7, 1 / 10, 2, 5]) (Tensor [4] [1, 0, 1, 1]) 3
      [0, 1, 2] = Inr (Tensor [2, 1] [7, 2])"
  by code_simp

lemma nonzero_four_points:
  "nonzero (squeeze (Tensor [4] [1, 0, 1, 1])) = Tensor [3, 1] [0, 2, 3]"
  by code_simp

lemma eligible_four_points:
  "nnz_count (Tensor [4] [1, 0, 1, 1]) = 3" "eligible (Tensor [4] [1, 0, 1, 1]) = [0, 2, 3]"
  by code_simp+

lemma index_four_points:
  "index (Tensor [4, 1] [7, 1 / 10, 2, 5 :: real]) (Tensor [3, 1] [0, 2, 3])
     = Inr (Tensor [3, 1, 1] [7, 2, 5])"
  by code_simp

lemma squeeze_last_four_points:
  "squeeze_last (Tensor [3, 1, 1] [7, 2, 5 :: real]) = Tensor [3, 1] [7, 2, 5]"
  by code_simp

lemma m_step_eligible_1:
  "m_step (Tensor [3, 1] [7, 2, 5])
      (init_state (Tensor [2, 1] [7, 2]) (Tensor [3, 2] [0, 0, 0, 0, 0, 0]))
     = Inr (Tensor [3] [0, 1, 0], Tensor [3, 2] [1, 0, 0, 1, 1, 0], Tensor [2, 1] [6, 2])"
  by code_simp

lemma m_step_eligible_2:
  "m_step (Tensor [3, 1] [7, 2, 5])
      \<lparr>choice_cluster = Some (Tensor [3] [0, 1, 0]), centers = Tensor [2, 1] [6, 2],
        centers_old = Some (Tensor [2, 1] [7, 2]),
        one_hot = Tensor [3, 2] [1, 0, 0, 1, 1, 0]\<rparr>
     = Inr (Tensor [3] [0, 1, 0], Tensor [3, 2] [1, 0, 0, 1, 1, 0], Tensor [2, 1] [6, 2])"
  by code_simp

lemma center_shift_eligible_1:
  "center_shift (Tensor [2, 1] [6, 2]) (Tensor [2, 1] [7, 2]) = Inr 1"
proof -
  have "sum_list (map (\<lambda>k. \<bar>get (Tensor [2, 1] [6, 2 :: real]) [k, 0]
                                - get (Tensor [2, 1] [7, 2]) [k, 0]\<bar>) [0..<2]) = 1"
    by code_simp
  then show ?thesis
    by (subst center_shift_col [where K = 2]) simp_all
qed

lemma center_shift_eligible_2:
  "center_shift (Tensor [2, 1] [6, 2]) (Tensor [2, 1] [6, 2]) = Inr 0"
proof -
  have "sum_list (map (\<lambda>k. \<bar>get (Tensor [2, 1] [6, 2 :: real]) [k, 0]
                                - get (Tensor [2, 1] [6, 2]) [k, 0]\<bar>) [0..<2]) = 0"
    by code_simp
  then show ?thesis
    by (subst center_shift_col [where K = 2]) simp_all
qed

lemma lloyd_fixed_nnz_run_four_points:
  "lloyd_fixed_nnz_run (Tensor [4, 1] [7, 1 / 10, 2, 5]) (Tensor [4] [1, 0, 1, 1]) 3 (1 / 10000) 2
      [0, 1, 2]
     = Inr \<lparr>choice_cluster = Some (Tensor [3] [0, 1, 0]), centers = Tensor [2, 1] [6, 2],
        centers_old = Some (Tensor [2, 1] [6, 2]),
        one_hot = Tensor [3, 2] [1, 0, 0, 1, 1, 0]\<rparr>"
proof -
  let ?X = "Tensor [3, 1] [7, 2, 5 :: real]"
  let ?s0 = "init_state (Tensor [2, 1] [7, 2]) (Tensor [3, 2] [0, 0, 0, 0, 0, 0])"
  let ?s1 = "\<lparr>choice_cluster = Some (Tensor [3] [0, 1, 0]), centers = Tensor [2, 1] [6, 2],
        centers_old = Some (Tensor [2, 1] [7, 2]),
        one_hot = Tensor [3, 2] [1, 0, 0, 1, 1, 0]\<rparr>"
  let ?s2 = "\<lparr>choice_cluster = Some (Tensor [3] [0, 1, 0]), centers = Tensor [2, 1] [6, 2],
        centers_old = Some (Tensor [2, 1] [6, 2]),
        one_hot = Tensor [3, 2] [1, 0, 0, 1, 1, 0]\<rparr>"
  have c0: "centers ?s0 = Tensor [2, 1] [7, 2]"
    by (simp add: init_state_def)
  have c1: "centers ?s1 = Tensor [2, 1] [6, 2]"
    by simp
  have st1: "lloyd_step ?X store_all ?s0 = Inr (?s1, 1)"
    by (simp only: lloyd_step_def m_step_eligible_1 bind.simps prod.case c0 store_all_def
          center_shift_eligible_1)
  have st2: "lloyd_step ?X store_all ?s1 = Inr (?s2, 0)"
    by (simp only: lloyd_step_def m_step_eligible_2 bind.simps prod.case c1 store_all_def
          center_shift_eligible_2)
  have loop: "lloyd_loop (lloyd_step ?X store_all) (1 / 10000) 2 ?s0 = Inr ?s2"
    by (rule lloyd_loop_two [OF st1 _ st2]) simp_all
  have z: "zeros [int 3, int 3 - 1] = Inr (Tensor [3, 2] [0, 0, 0, 0, 0, 0])"
    by (simp add: zeros_def numeral_eq_Suc)
  show ?thesis
    unfolding lloyd_fixed_nnz_run_def Let_def forgy_fixed_four_points bind.simps
      nonzero_four_points tensor.sel list.sel z index_four_points squeeze_last_four_points loop
    by (rule refl)
qed

lemma lloyd_fixed_nnz_four_points:
  "lloyd_fixed_nnz (Tensor [4, 1] [7, 1 / 10, 2, 5]) (Tensor [4] [1, 0, 1, 1]) 3 (1 / 10000) 2
      [0, 1, 2]
     = Inr (Tensor [3] [0, 1, 0], Tensor [2, 1] [6, 2])"
  unfolding lloyd_fixed_nnz_def lloyd_fixed_nnz_run_four_points
  by (simp add: return_result_def)

text \<open>
  C9. Whenever \<open>lloyd_fixed_nnz\<close> returns, the assignment vector has one entry for each
  non-zero entry of \<open>Xp\<close> (not for each of the \<open>N\<close> points of \<open>X\<close>), and its positions are
  positions in the list \<open>eligible Xp\<close> of the entries that \<open>Xp\<close> flags, in increasing
  order (the rows of \<open>nnz_idx\<close>), not rows of \<open>X\<close>: entry \<open>j\<close> is the cluster of row
  \<open>eligible Xp ! j\<close> of \<open>X\<close>, namely the first of the \<open>K - 1\<close> clusters whose center is
  nearest to that row, among the centers that the function held before its last update
  (\<open>centers_old\<close> in the final state of the run); and every returned center with a
  point is the mean of the rows \<open>X[eligible Xp ! j]\<close> over the positions \<open>j\<close> that the
  vector gives to it. The function returns only on a column \<open>X\<close>.
\<close>

theorem lloyd_fixed_nnz_assignment:
  assumes "lloyd_fixed_nnz X Xp K tol max_iter perm = Inr (a, c)"
  shows "shape a = [nnz_count Xp] \<and> length (data a) = nnz_count Xp
     \<and> length (eligible Xp) = nnz_count Xp
     \<and> eligible Xp = filter (\<lambda>i. data Xp ! i \<noteq> 0) [0..<prod_list (shape Xp)]
     \<and> nonzero (squeeze Xp) = Tensor [nnz_count Xp, 1] (eligible Xp)
     \<and> (\<exists>N. shape X = [N, 1] \<and> list_all (\<lambda>i. i < N) (eligible Xp))
     \<and> (\<exists>s cold. lloyd_fixed_nnz_run X Xp K tol max_iter perm = Inr s
          \<and> choice_cluster s = Some a \<and> centers s = c \<and> centers_old s = Some cold
          \<and> shape cold = [K - 1, 1]
          \<and> (\<forall>j<nnz_count Xp. get a [j] < K - 1
                \<and> (\<forall>k<K - 1. sqdist X (eligible Xp ! j) cold (get a [j])
                               \<le> sqdist X (eligible Xp ! j) cold k)
                \<and> (\<forall>k<get a [j]. sqdist X (eligible Xp ! j) cold (get a [j])
                               < sqdist X (eligible Xp ! j) cold k))
          \<and> (\<forall>k<K - 1. members a (nnz_count Xp) k \<noteq> []
                \<longrightarrow> get c [k, 0]
                    = mean_of X (map (\<lambda>j. eligible Xp ! j) (members a (nnz_count Xp) k))))"
proof -
  let ?M = "nnz_count Xp"
  obtain s where run: "lloyd_fixed_nnz_run X Xp K tol max_iter perm = Inr s"
    and s: "choice_cluster s = Some a" "centers s = c"
    using assms(1) by (auto simp: lloyd_fixed_nnz_def bind_eq_Inr return_result_Inr)
  obtain N Xn cold where X: "shape X = [N, 1]"
    and nn: "nonzero (squeeze Xp) = Tensor [?M, 1] (eligible Xp)"
    and bound: "list_all (\<lambda>i. i < N) (eligible Xp)"
    and old: "centers_old s = Some cold" and Xn: "shape Xn = [?M, 1]"
    and cold: "shape cold = [K - 1, 1]" "2 \<le> K - 1"
    and rows: "\<forall>j<?M. get Xn [j, 0] = get X [eligible Xp ! j, 0]"
    and a: "a = build [?M] (\<lambda>idx. col_assign Xn cold (hd idx))"
    and c: "centers s = Tensor [K - 1, 1] (data (build [K - 1]
           (\<lambda>idx. col_center Xn (col_assign Xn cold) ?M (hd idx))))"
    using lloyd_fixed_nnz_final [OF run s(1)] by blast
  have XN: "\<exists>N. shape X = [N, 1] \<and> list_all (\<lambda>i. i < N) (eligible Xp)"
    using X bound by blast
  have near: "get a [j] < K - 1
      \<and> (\<forall>k<K - 1. sqdist X (eligible Xp ! j) cold (get a [j])
                     \<le> sqdist X (eligible Xp ! j) cold k)
      \<and> (\<forall>k<get a [j]. sqdist X (eligible Xp ! j) cold (get a [j])
                     < sqdist X (eligible Xp ! j) cold k)"
    if j: "j < ?M" for j
  proof -
    have g: "get a [j] = col_assign Xn cold j"
      using j by (simp add: a get_build_1)
    have d: "sqdist Xn j cold k = sqdist X (eligible Xp ! j) cold k" for k
      using rows j by (simp add: sqdist_col [OF Xn] sqdist_col [OF X])
    have "col_assign Xn cold j < K - 1"
      using col_assign_less [OF cold(1)] cold(2) by simp
    moreover have "sqdist X (eligible Xp ! j) cold (col_assign Xn cold j)
        \<le> sqdist X (eligible Xp ! j) cold k" if "k < K - 1" for k
      using col_assign_nearest [OF Xn cold(1) that, of j] by (simp add: d)
    moreover have "sqdist X (eligible Xp ! j) cold (col_assign Xn cold j)
        < sqdist X (eligible Xp ! j) cold k" if "k < col_assign Xn cold j" for k
      using col_assign_first [OF Xn cold(1) that] by (simp add: d)
    ultimately show ?thesis
      by (simp add: g)
  qed
  have mean: "get c [k, 0] = mean_of X (map (\<lambda>j. eligible Xp ! j) (members a ?M k))"
    if k: "k < K - 1" and ne: "members a ?M k \<noteq> []" for k
  proof -
    have m: "members a ?M k = filter (\<lambda>j. col_assign Xn cold j = k) [0..<?M]"
      unfolding a by (rule members_build)
    have "get (Tensor [K - 1, 1] (data (build [K - 1]
           (\<lambda>idx. col_center Xn (col_assign Xn cold) ?M (hd idx))))) [k, 0]
        = col_center Xn (col_assign Xn cold) ?M (hd [k])"
      by (rule get_col_build [OF k])
    then have "get c [k, 0] = col_center Xn (col_assign Xn cold) ?M k"
      unfolding s(2) [symmetric] c by simp
    also have "\<dots> = mean_of Xn (members a ?M k)"
      using ne col_center_mean [of "col_assign Xn cold" k ?M Xn] by (simp add: m)
    also have "\<dots> = mean_of X (map (\<lambda>j. eligible Xp ! j) (members a ?M k))"
      by (rule mean_of_rows) (use rows in \<open>auto simp: m\<close>)
    finally show ?thesis .
  qed
  have sh: "shape a = [?M]" "length (data a) = ?M"
    by (simp_all add: a)
  have near': "\<forall>j<?M. get a [j] < K - 1
      \<and> (\<forall>k<K - 1. sqdist X (eligible Xp ! j) cold (get a [j])
                     \<le> sqdist X (eligible Xp ! j) cold k)
      \<and> (\<forall>k<get a [j]. sqdist X (eligible Xp ! j) cold (get a [j])
                     < sqdist X (eligible Xp ! j) cold k)"
    using near by blast
  have mean': "\<forall>k<K - 1. members a ?M k \<noteq> []
      \<longrightarrow> get c [k, 0] = mean_of X (map (\<lambda>j. eligible Xp ! j) (members a ?M k))"
    using mean by blast
  show ?thesis
    by (intro conjI exI [of _ s] exI [of _ cold])
      (fact sh nonzero_view_flat(2,3) nn XN run s old cold(1) near' mean')+
qed

theorem lloyd_fixed_nnz_assignment_witness:
  "lloyd_fixed_nnz (Tensor [4, 1] [7, 1 / 10, 2, 5]) (Tensor [4] [1, 0, 1, 1]) 3 (1 / 10000) 2
      [0, 1, 2]
     = Inr (Tensor [3] [0, 1, 0], Tensor [2, 1] [6, 2])
   \<and> nnz_count (Tensor [4] [1, 0, 1, 1]) = 3
   \<and> eligible (Tensor [4] [1, 0, 1, 1]) = [0, 2, 3]
   \<and> shape (Tensor [3] [0, 1, 0 :: nat]) = [3]
   \<and> get (Tensor [3] [0, 1, 0 :: nat]) [0] = 0
   \<and> get (Tensor [3] [0, 1, 0 :: nat]) [1] = 1
   \<and> sqdist (Tensor [4, 1] [7, 1 / 10, 2, 5]) ([0, 2, 3] ! 0) (Tensor [2, 1] [6, 2])
         (get (Tensor [3] [0, 1, 0]) [0])
       \<le> sqdist (Tensor [4, 1] [7, 1 / 10, 2, 5]) ([0, 2, 3] ! 0) (Tensor [2, 1] [6, 2]) 1
   \<and> sqdist (Tensor [4, 1] [7, 1 / 10, 2, 5]) ([0, 2, 3] ! 1) (Tensor [2, 1] [6, 2])
         (get (Tensor [3] [0, 1, 0]) [1])
       < sqdist (Tensor [4, 1] [7, 1 / 10, 2, 5]) ([0, 2, 3] ! 1) (Tensor [2, 1] [6, 2]) 0
   \<and> members (Tensor [3] [0, 1, 0]) 3 0 = [0, 2]
   \<and> get (Tensor [2, 1] [6, 2 :: real]) [0, 0]
       = mean_of (Tensor [4, 1] [7, 1 / 10, 2, 5])
           (map (\<lambda>j. [0, 2, 3] ! j) (members (Tensor [3] [0, 1, 0]) 3 0))"
proof -
  let ?X = "Tensor [4, 1] [7, 1 / 10, 2, 5 :: real]"
  let ?Xp = "Tensor [4] [1, 0, 1, 1 :: real]"
  let ?a = "Tensor [3] [0, 1, 0 :: nat]"
  let ?c = "Tensor [2, 1] [6, 2 :: real]"
  have n: "nnz_count ?Xp = 3" and e: "eligible ?Xp = [0, 2, 3]"
    by (rule eligible_four_points)+
  have k: "(3 :: nat) - 1 = 2"
    by simp
  note t = lloyd_fixed_nnz_assignment [OF lloyd_fixed_nnz_four_points]
  note ex = t [THEN conjunct2, THEN conjunct2, THEN conjunct2, THEN conjunct2, THEN conjunct2,
      THEN conjunct2, unfolded n e k lloyd_fixed_nnz_run_four_points]
  from ex obtain s cold
    where r: "Inr \<lparr>choice_cluster = Some ?a, centers = ?c, centers_old = Some ?c,
        one_hot = Tensor [3, 2] [1, 0, 0, 1, 1, 0]\<rparr> = (Inr s :: py_error + kstate)"
      and co: "centers_old s = Some cold"
      and near: "\<forall>j<3. get ?a [j] < 2
         \<and> (\<forall>k<2. sqdist ?X ([0, 2, 3] ! j) cold (get ?a [j])
                     \<le> sqdist ?X ([0, 2, 3] ! j) cold k)
         \<and> (\<forall>k<get ?a [j]. sqdist ?X ([0, 2, 3] ! j) cold (get ?a [j])
                     < sqdist ?X ([0, 2, 3] ! j) cold k)"
      and mean: "\<forall>k<2. members ?a 3 k \<noteq> []
         \<longrightarrow> get ?c [k, 0] = mean_of ?X (map (\<lambda>j. [0, 2, 3] ! j) (members ?a 3 k))"
    by (elim exE conjE) (rule that)
  have "cold = ?c"
    using r co by auto
  note near' = near [unfolded this]
  have sa: "shape ?a = [3]"
    by simp
  have a0: "get ?a [0] = 0" and a1: "get ?a [1] = 1"
    by code_simp+
  have mem: "members ?a 3 0 = [0, 2]"
    by code_simp
  have j0: "(0 :: nat) < 3" and j1: "(1 :: nat) < 3" and k0: "(0 :: nat) < 2"
    and k1: "(1 :: nat) < 2"
    by simp_all
  note le = near' [rule_format, OF j0, THEN conjunct2, THEN conjunct1, rule_format, OF k1]
  have k0': "0 < get ?a [1]"
    unfolding a1 by simp
  note less = near' [rule_format, OF j1, THEN conjunct2, THEN conjunct2, rule_format, OF k0']
  have mne: "members ?a 3 0 \<noteq> []"
    unfolding mem by simp
  note m0 = mean [rule_format, OF k0 mne]
  show ?thesis
    by (intro conjI)
      (fact lloyd_fixed_nnz_four_points n e sa a0 a1 le less mem m0)+
qed

end
